theory Spec2Isabelle
  imports Complex_Main "HOL-Library.Char_ord" "HOL-Library.List_Lexorder"
    "HOL-Library.Product_Lexorder" "HOL-Library.Sublist"
begin

section \<open>Values exchanged with the two HTTP services\<close>

text \<open>
  Both status endpoints are read with \<^verbatim>\<open>response.json()\<close>, so the program works on
  the Python values a JSON document decodes to. A dictionary is kept as the list of
  its items in document order; a key that occurs twice keeps its last value, as
  \<^verbatim>\<open>json.loads\<close> does. A Python float is represented by the rational number it
  denotes (NaN, the infinities and the sign of zero are not represented).
\<close>

datatype json =
    JNull
  | JBool bool
  | JInt int
  | JFloat rat
  | JStr string
  | JArr "json list"
  | JObj "(string \<times> json) list"

text \<open>Python's truth value of a decoded JSON value (\<^verbatim>\<open>if not field\<close>).\<close>

fun truthy :: "json \<Rightarrow> bool" where
  "truthy JNull = False"
| "truthy (JBool b) = b"
| "truthy (JInt i) = (i \<noteq> 0)"
| "truthy (JFloat r) = (r \<noteq> 0)"
| "truthy (JStr s) = (s \<noteq> [])"
| "truthy (JArr xs) = (xs \<noteq> [])"
| "truthy (JObj kvs) = (kvs \<noteq> [])"

text \<open>The exceptions the program can die of.\<close>

datatype error =
    ConnectionError
  | JSONDecodeError
  | UnidentifiedImageError
  | AttributeError
  | TypeError
  | ValueError
  | ZeroDivisionError
  | OverflowError
  | OSError
  | KeyError
  | RuntimeError string

text \<open>\<^verbatim>\<open>d[k]\<close> on the items of a dictionary: the last item with that key.\<close>

definition dict_lookup :: "(string \<times> json) list \<Rightarrow> string \<Rightarrow> json option" where
  "dict_lookup kvs k = map_of (rev kvs) k"

text \<open>
  \<^verbatim>\<open>x.get(k, default)\<close>: only a dictionary has the method; on any other decoded
  value the attribute lookup raises.
\<close>

fun py_get :: "json \<Rightarrow> string \<Rightarrow> json \<Rightarrow> error + json" where
  "py_get (JObj kvs) k dflt =
     (case dict_lookup kvs k of None \<Rightarrow> Inr dflt | Some v \<Rightarrow> Inr v)"
| "py_get _ k dflt = Inl AttributeError"

section \<open>Rendering numbers\<close>

text \<open>A decimal digit, for \<open>d < 10\<close>.\<close>

definition digit_char :: "nat \<Rightarrow> char" where
  "digit_char d = ''0123456789'' ! d"

fun show_nat :: "nat \<Rightarrow> string" where
  "show_nat n = (if n < 10 then [digit_char n] else show_nat (n div 10) @ [digit_char (n mod 10)])"

declare show_nat.simps [simp del]

definition show_int :: "int \<Rightarrow> string" where
  "show_int i = (if i < 0 then CHR ''-'' # show_nat (nat (- i)) else show_nat (nat i))"

text \<open>The \<open>w\<close> low decimal digits of \<open>n\<close>, most significant first.\<close>

fun low_digits :: "nat \<Rightarrow> nat \<Rightarrow> string" where
  "low_digits w n =
     (if w = 0 then [] else low_digits (w - 1) (n div 10) @ [digit_char (n mod 10)])"

declare low_digits.simps [simp del]

text \<open>Rounding to the nearest integer, a tie going to the even neighbour.\<close>

definition round_half_even :: "rat \<Rightarrow> int" where
  "round_half_even q =
     (let f = \<lfloor>q\<rfloor>; r = q - of_int f
      in if r < 1 / 2 then f else if 1 / 2 < r then f + 1 else if even f then f else f + 1)"

text \<open>
  \<^verbatim>\<open>format(x, ".Nf")\<close> for a number \<open>x\<close>: the sign, the integer part, and \<open>N\<close>
  fractional digits after a point (no point when \<open>N = 0\<close>), correctly rounded.
\<close>

definition format_f :: "rat \<Rightarrow> nat \<Rightarrow> string" where
  "format_f x p =
     (let n = nat (round_half_even (\<bar>x\<bar> * 10 ^ p));
          body = show_nat (n div 10 ^ p) @ (if p = 0 then [] else CHR ''.'' # low_digits p n)
      in if x < 0 then CHR ''-'' # body else body)"

section \<open>Floats\<close>

text \<open>
  Where Python turns integers into a float (the division \<^verbatim>\<open>a / b\<close> of two integers,
  and an integer under the format code \<^verbatim>\<open>f\<close>), the result is the double nearest to
  the exact value, a tie going to the even mantissa, and OverflowError beyond the range
  of the doubles. \<open>nearest_double a b\<close> is that double for the quotient of \<open>a \<ge> 0\<close>
  by \<open>b > 0\<close>: 53 bits of mantissa above the exponent of the quotient, or above
  \<open>2^-1022\<close> for a subnormal result.
\<close>

fun bit_length :: "nat \<Rightarrow> nat" where
  "bit_length n = (if n = 0 then 0 else Suc (bit_length (n div 2)))"

declare bit_length.simps [simp del]

text \<open>The integer nearest to \<open>n / d\<close>, a tie going to the even one (\<open>d > 0\<close>).\<close>

definition round_half_even_div :: "int \<Rightarrow> int \<Rightarrow> int" where
  "round_half_even_div n d =
     (let q = n div d; r = n mod d
      in if 2 * r < d then q else if d < 2 * r then q + 1 else if even q then q else q + 1)"

text \<open>The exponent \<open>e\<close> with \<open>2^e \<le> a / b < 2^(e + 1)\<close>, for \<open>a, b > 0\<close>.\<close>

definition floor_log2 :: "nat \<Rightarrow> nat \<Rightarrow> int" where
  "floor_log2 a b =
     (let d = int (bit_length a) - int (bit_length b)
      in if (if 0 \<le> d then b * 2 ^ nat d \<le> a else b \<le> a * 2 ^ nat (- d)) then d else d - 1)"

text \<open>\<open>x * 2^s\<close> for an integer \<open>s\<close> of either sign.\<close>

definition scale2 :: "rat \<Rightarrow> int \<Rightarrow> rat" where
  "scale2 x s = (if 0 \<le> s then x * 2 ^ nat s else x / 2 ^ nat (- s))"

definition nearest_double :: "nat \<Rightarrow> nat \<Rightarrow> error + rat" where
  "nearest_double a b =
     (if a = 0 then Inr 0
      else
        let s = max (floor_log2 a b) (- 1022) - 52;
            m = (if 0 \<le> s then round_half_even_div (int a) (int b * 2 ^ nat s)
                 else round_half_even_div (int a * 2 ^ nat (- s)) (int b))
        in if 971 < s \<or> (s = 971 \<and> 2 ^ 53 \<le> m) then Inl OverflowError
           else Inr (scale2 (of_int m) s))"

text \<open>\<^verbatim>\<open>float(i)\<close> for an integer \<open>i\<close>.\<close>

definition int_to_float :: "int \<Rightarrow> error + rat" where
  "int_to_float i =
     (case nearest_double (nat \<bar>i\<bar>) 1 of
        Inl e \<Rightarrow> Inl e
      | Inr x \<Rightarrow> Inr (if i < 0 then - x else x))"

text \<open>
  \<^verbatim>\<open>a / b\<close> on two integers: ZeroDivisionError for a zero divisor, else the double
  nearest to the quotient.
\<close>

definition py_truediv :: "int \<Rightarrow> int \<Rightarrow> error + rat" where
  "py_truediv a b =
     (if b = 0 then Inl ZeroDivisionError
      else case nearest_double (nat \<bar>a\<bar>) (nat \<bar>b\<bar>) of
             Inl e \<Rightarrow> Inl e
           | Inr x \<Rightarrow> Inr (if (a < 0) = (b < 0) then x else - x))"

section \<open>Telemetry readings\<close>

text \<open>
  What the interpreter's own library contributes, taken as parameters: the text of a
  float and of a container (\<^verbatim>\<open>str\<close>), and the JPEG encoder of the imaging library.
\<close>

record pil_image =
  pixels :: "nat list"
  texts :: "((int \<times> int) \<times> string) list"

record platform =
  float_repr :: "rat \<Rightarrow> string"
  container_repr :: "json \<Rightarrow> string"
  jpeg_encode :: "pil_image \<Rightarrow> nat list"

text \<open>
  \<^verbatim>\<open>str(x)\<close>, which an f-string applies to a field with no format spec. It never
  raises on a decoded value: the decoder refuses an integer of more than 4300 digits, so
  the integers of a document are below the length at which \<^verbatim>\<open>str\<close> refuses one.
\<close>

fun py_str :: "platform \<Rightarrow> json \<Rightarrow> string" where
  "py_str lib JNull = ''None''"
| "py_str lib (JBool b) = (if b then ''True'' else ''False'')"
| "py_str lib (JInt i) = show_int i"
| "py_str lib (JFloat r) = float_repr lib r"
| "py_str lib (JStr s) = s"
| "py_str lib (JArr xs) = container_repr lib (JArr xs)"
| "py_str lib (JObj kvs) = container_repr lib (JObj kvs)"

text \<open>A string of ASCII digits as a number; \<open>None\<close> when it is empty or has another character.\<close>

definition digit_value :: "char \<Rightarrow> nat option" where
  "digit_value c =
     (let k = of_char c :: nat in if 48 \<le> k \<and> k \<le> 57 then Some (k - 48) else None)"

fun parse_digits_from :: "nat \<Rightarrow> string \<Rightarrow> nat option" where
  "parse_digits_from acc [] = Some acc"
| "parse_digits_from acc (c # cs) =
     (case digit_value c of None \<Rightarrow> None | Some d \<Rightarrow> parse_digits_from (10 * acc + d) cs)"

definition parse_digits :: "string \<Rightarrow> nat option" where
  "parse_digits s = (if s = [] then None else parse_digits_from 0 s)"

text \<open>
  The precision of the format spec \<^verbatim>\<open>.{decimals}f\<close>. The nested field is replaced by
  \<^verbatim>\<open>str(decimals)\<close> and the spec is then parsed: it is well formed exactly when that
  text is a run of digits, which a non-negative integer and a string of digits give,
  and the number they write fits the parser's signed 64-bit counter.
\<close>

fun spec_precision :: "json \<Rightarrow> nat option" where
  "spec_precision (JInt d) =
     (if 0 \<le> d \<and> d \<le> 9223372036854775807 then Some (nat d) else None)"
| "spec_precision (JStr s) =
     (case parse_digits s of
        None \<Rightarrow> None
      | Some p \<Rightarrow> if p \<le> 9223372036854775807 then Some p else None)"
| "spec_precision _ = None"

text \<open>
  A float under the format code \<^verbatim>\<open>f\<close>: a precision above \<open>2^31 - 1\<close> is refused
  (ValueError); any other gives the text, memory permitting.
\<close>

definition format_float :: "rat \<Rightarrow> nat \<Rightarrow> error + string" where
  "format_float x p = (if 2147483647 < p then Inl ValueError else Inr (format_f x p))"

text \<open>
  \<^verbatim>\<open>f"{value:.{decimals}f}"\<close>. None, a list and a dictionary refuse every non-empty
  spec (TypeError); a string refuses the code \<^verbatim>\<open>f\<close>, and a number a malformed spec
  (ValueError). A bool is formatted as the integer it is. An integer is formatted
  through the float nearest to it: the spec is parsed first, then the integer is
  converted (OverflowError when it is too large), then the precision is checked.
\<close>

fun py_format_f :: "json \<Rightarrow> json \<Rightarrow> error + string" where
  "py_format_f JNull decimals = Inl TypeError"
| "py_format_f (JArr xs) decimals = Inl TypeError"
| "py_format_f (JObj kvs) decimals = Inl TypeError"
| "py_format_f (JStr s) decimals = Inl ValueError"
| "py_format_f (JBool b) decimals =
     (case spec_precision decimals of None \<Rightarrow> Inl ValueError
      | Some p \<Rightarrow> format_float (if b then 1 else 0) p)"
| "py_format_f (JInt i) decimals =
     (case spec_precision decimals of None \<Rightarrow> Inl ValueError
      | Some p \<Rightarrow>
          (case int_to_float i of Inl e \<Rightarrow> Inl e | Inr x \<Rightarrow> format_float x p))"
| "py_format_f (JFloat r) decimals =
     (case spec_precision decimals of None \<Rightarrow> Inl ValueError
      | Some p \<Rightarrow> format_float r p)"

text \<open>
  \<^verbatim>\<open>
  def format_opendtu_value(field) -> str:
      if not field:
          return "N/A"
      value = field.get("v", 0)
      unit = field.get("u", "")
      decimals = field.get("d", 0)
      return f"{value:.{decimals}f} {unit}"
  \<close>
\<close>

definition format_opendtu_value :: "platform \<Rightarrow> json \<Rightarrow> error + string" where
  "format_opendtu_value lib field =
     (if \<not> truthy field then Inr ''N/A''
      else case py_get field ''v'' (JInt 0) of Inl e \<Rightarrow> Inl e | Inr value \<Rightarrow>
           case py_get field ''u'' (JStr []) of Inl e \<Rightarrow> Inl e | Inr unit \<Rightarrow>
           case py_get field ''d'' (JInt 0) of Inl e \<Rightarrow> Inl e | Inr decimals \<Rightarrow>
           case py_format_f value decimals of Inl e \<Rightarrow> Inl e
           | Inr number \<Rightarrow> Inr (number @ '' '' @ py_str lib unit))"

section \<open>Capture timestamps\<close>

text \<open>
  A \<^verbatim>\<open>datetime.datetime\<close> by its fields. \<^verbatim>\<open>datetime.now()\<close> returns a naive
  local time; the constructor's range checks are \<open>valid_datetime\<close>.
\<close>

record datetime =
  dt_year :: nat
  dt_month :: nat
  dt_day :: nat
  dt_hour :: nat
  dt_minute :: nat
  dt_second :: nat
  dt_microsecond :: nat

definition is_leap :: "nat \<Rightarrow> bool" where
  "is_leap y = (y mod 4 = 0 \<and> (y mod 400 = 0 \<or> y mod 100 \<noteq> 0))"

definition days_in_month :: "nat \<Rightarrow> nat \<Rightarrow> nat" where
  "days_in_month y m =
     (if m = 2 then (if is_leap y then 29 else 28)
      else if m = 4 \<or> m = 6 \<or> m = 9 \<or> m = 11 then 30 else 31)"

definition valid_datetime :: "datetime \<Rightarrow> bool" where
  "valid_datetime t =
     (1 \<le> dt_year t \<and> dt_year t \<le> 9999 \<and> 1 \<le> dt_month t \<and> dt_month t \<le> 12 \<and>
      1 \<le> dt_day t \<and> dt_day t \<le> days_in_month (dt_year t) (dt_month t) \<and>
      dt_hour t < 24 \<and> dt_minute t < 60 \<and> dt_second t < 60 \<and> dt_microsecond t < 1000000)"

text \<open>The proleptic Gregorian ordinal of a date (1 January of year 1 is day 1).\<close>

definition days_before_year :: "nat \<Rightarrow> nat" where
  "days_before_year y = (y - 1) * 365 + (y - 1) div 4 - (y - 1) div 100 + (y - 1) div 400"

definition days_before_month :: "nat \<Rightarrow> nat \<Rightarrow> nat" where
  "days_before_month y m =
     [0, 0, 31, 59, 90, 120, 151, 181, 212, 243, 273, 304, 334] ! m
       + (if 2 < m \<and> is_leap y then 1 else 0)"

definition ymd2ord :: "nat \<Rightarrow> nat \<Rightarrow> nat \<Rightarrow> nat" where
  "ymd2ord y m d = days_before_year y + days_before_month y m + d"

text \<open>Microseconds since the start of day 0: the scale on which two datetimes are subtracted.\<close>

definition to_microseconds :: "datetime \<Rightarrow> nat" where
  "to_microseconds t =
     (((ymd2ord (dt_year t) (dt_month t) (dt_day t) * 24 + dt_hour t) * 60 + dt_minute t) * 60
        + dt_second t) * 1000000 + dt_microsecond t"

text \<open>The comparison \<^verbatim>\<open>t1 < t2\<close> of two naive datetimes: field by field.\<close>

definition dt_less :: "datetime \<Rightarrow> datetime \<Rightarrow> bool" where
  "dt_less a b =
     ((dt_year a, dt_month a, dt_day a, dt_hour a, dt_minute a, dt_second a, dt_microsecond a)
        < (dt_year b, dt_month b, dt_day b, dt_hour b, dt_minute b, dt_second b, dt_microsecond b))"

text \<open>The same wall-clock second: all fields but the microsecond agree.\<close>

definition same_second :: "datetime \<Rightarrow> datetime \<Rightarrow> bool" where
  "same_second a b =
     (dt_year a = dt_year b \<and> dt_month a = dt_month b \<and> dt_day a = dt_day b \<and>
      dt_hour a = dt_hour b \<and> dt_minute a = dt_minute b \<and> dt_second a = dt_second b)"

text \<open>
  \<^verbatim>\<open>strftime\<close>, for the directives the program's two format strings use. The year is
  four digits, which holds on every platform from year 1000 on. \<open>zone\<close> is what
  \<^verbatim>\<open>%Z\<close> prints: the local zone's name for an aware datetime, nothing for a naive one.
\<close>

definition strftime_directive :: "char \<Rightarrow> datetime \<Rightarrow> string \<Rightarrow> string" where
  "strftime_directive c t zone =
     (if c = CHR ''Y'' then low_digits 4 (dt_year t)
      else if c = CHR ''m'' then low_digits 2 (dt_month t)
      else if c = CHR ''d'' then low_digits 2 (dt_day t)
      else if c = CHR ''H'' then low_digits 2 (dt_hour t)
      else if c = CHR ''M'' then low_digits 2 (dt_minute t)
      else if c = CHR ''S'' then low_digits 2 (dt_second t)
      else if c = CHR ''Z'' then zone
      else if c = CHR ''%'' then ''%''
      else [CHR ''%'', c])"

fun strftime :: "string \<Rightarrow> datetime \<Rightarrow> string \<Rightarrow> string" where
  "strftime [] t zone = []"
| "strftime [c] t zone = [c]"
| "strftime (c # d # rest) t zone =
     (if c = CHR ''%'' then strftime_directive d t zone @ strftime rest t zone
      else c # strftime (d # rest) t zone)"

section \<open>Configuration, the world and its events\<close>

text \<open>The module-level constants of \<^verbatim>\<open>main.py\<close>, and their values there.\<close>

record config =
  CAMERA_HOSTNAME :: string
  CAMERA_PORT :: nat
  OPENDTU_HOSTNAME :: string
  OPENDTU_PORT :: nat
  SAVE_DIR :: string
  TIME_FORMAT :: string
  TIME_ZONE :: string
  TIMEOUT :: int

definition the_config :: config where
  "the_config =
     \<lparr>CAMERA_HOSTNAME = ''raspi-01'', CAMERA_PORT = 8080,
      OPENDTU_HOSTNAME = ''192.168.0.128'', OPENDTU_PORT = 80,
      SAVE_DIR = ''images'', TIME_FORMAT = ''%Y-%m-%d %H:%M:%S %Z'',
      TIME_ZONE = ''Europe/Vienna'', TIMEOUT = 2\<rparr>"

definition CAMERA_BASE_URL :: "config \<Rightarrow> string" where
  "CAMERA_BASE_URL cfg = ''http://'' @ CAMERA_HOSTNAME cfg @ '':'' @ show_nat (CAMERA_PORT cfg)"

definition CAMERA_SNAPSHOT_URL :: "config \<Rightarrow> string" where
  "CAMERA_SNAPSHOT_URL cfg = CAMERA_BASE_URL cfg @ ''/snapshot''"

definition CAMERA_STATUS_URL :: "config \<Rightarrow> string" where
  "CAMERA_STATUS_URL cfg = CAMERA_BASE_URL cfg @ ''/status''"

definition OPENDTU_STATUS_URL :: "config \<Rightarrow> string" where
  "OPENDTU_STATUS_URL cfg =
     ''http://'' @ OPENDTU_HOSTNAME cfg @ '':'' @ show_nat (OPENDTU_PORT cfg)
       @ ''/api/livedata/status''"

text \<open>
  Everything the process does to its surroundings, in the order it does it. The state
  is the files it can see (a path, relative to the working directory, to its bytes) and
  the events so far.
\<close>

datatype event =
    HttpGet string
  | DrawText "int \<times> int" string
  | FileWrite string
  | FileRemove string
  | Print string
  | Sleep int

record world =
  files :: "string \<Rightarrow> nat list option"
  trace :: "event list"

type_synonym 'a io = "world \<Rightarrow> (error + 'a) \<times> world"

definition emit :: "event \<Rightarrow> world \<Rightarrow> world" where
  "emit ev w = w\<lparr>trace := trace w @ [ev]\<rparr>"

text \<open>Sequencing: an exception of the first part skips the rest and keeps the world it left.\<close>

definition and_then :: "'a io \<Rightarrow> ('a \<Rightarrow> 'b io) \<Rightarrow> 'b io" where
  "and_then m f w = (case m w of (Inl e, w') \<Rightarrow> (Inl e, w') | (Inr x, w') \<Rightarrow> f x w')"

definition pure_step :: "error + 'a \<Rightarrow> 'a io" where
  "pure_step r w = (r, w)"

definition print :: "string \<Rightarrow> unit io" where
  "print s w = (Inr (), emit (Print s) w)"

text \<open>
  What the surroundings answer. An HTTP reply carries its status code, which the program
  never looks at, and the body as the client decodes it: \<open>None\<close> when the body is not
  JSON (for \<^verbatim>\<open>response.json()\<close>), or not an image (for \<^verbatim>\<open>Image.open\<close>).
  Writing a file either succeeds or raises, and then leaves at the path whatever the
  surroundings say (\<open>None\<close>: the path is as it was).
\<close>

datatype 'a http_reply = ConnectionFailed | Reply nat "'a option"

datatype disk = DiskOk | DiskFails "nat list option"

record startup_input =
  status_reply :: "json http_reply"
  sample_reply :: "pil_image http_reply"
  sample_now :: datetime
  sample_disk :: disk

record capture_input =
  snapshot_reply :: "pil_image http_reply"
  captured_at :: datetime
  zone_name :: string
  telemetry_reply :: "json http_reply"
  disk_state :: disk

section \<open>The program\<close>

text \<open>
  \<^verbatim>\<open>
  def format_byte_size(bytes: int) -> str:
      for unit in ["B", "KB", "MB", "GB", "TB"]:
          if bytes < 1024:
              return f"{bytes:.2f} {unit}"
          bytes /= 1024
      return f"{bytes:.2f} PB"
  \<close>
  The argument is the float of the estimate. A float of 1024 or more divided by 1024 is
  again a float, so the division loses nothing.
\<close>

fun format_byte_size_units :: "string list \<Rightarrow> rat \<Rightarrow> string" where
  "format_byte_size_units [] bytes = format_f bytes 2 @ '' PB''"
| "format_byte_size_units (unit # units) bytes =
     (if bytes < 1024 then format_f bytes 2 @ '' '' @ unit
      else format_byte_size_units units (bytes / 1024))"

definition format_byte_size :: "rat \<Rightarrow> string" where
  "format_byte_size bytes = format_byte_size_units [''B'', ''KB'', ''MB'', ''GB'', ''TB''] bytes"

text \<open>\<^verbatim>\<open>requests.get(url)\<close> followed by \<^verbatim>\<open>response.json()\<close>.\<close>

definition response_json :: "json http_reply \<Rightarrow> error + json" where
  "response_json reply =
     (case reply of ConnectionFailed \<Rightarrow> Inl ConnectionError
      | Reply status None \<Rightarrow> Inl JSONDecodeError
      | Reply status (Some j) \<Rightarrow> Inr j)"

definition get_opendtu_data :: "config \<Rightarrow> json http_reply \<Rightarrow> json io" where
  "get_opendtu_data cfg reply w = (response_json reply, emit (HttpGet (OPENDTU_STATUS_URL cfg)) w)"

definition get_camera_status :: "config \<Rightarrow> json http_reply \<Rightarrow> json io" where
  "get_camera_status cfg reply w = (response_json reply, emit (HttpGet (CAMERA_STATUS_URL cfg)) w)"

text \<open>
  \<^verbatim>\<open>
  def get_image():
      response = requests.get(CAMERA_SNAPSHOT_URL)
      now = datetime.datetime.now()
      return Image.open(BytesIO(response.content)), now
  \<close>
  \<open>now\<close> is what the clock reads when the response has arrived.
\<close>

definition get_image ::
  "config \<Rightarrow> pil_image http_reply \<Rightarrow> datetime \<Rightarrow> (pil_image \<times> datetime) io" where
  "get_image cfg reply now w =
     ((case reply of ConnectionFailed \<Rightarrow> Inl ConnectionError
       | Reply status None \<Rightarrow> Inl UnidentifiedImageError
       | Reply status (Some img) \<Rightarrow> Inr (img, now)),
      emit (HttpGet (CAMERA_SNAPSHOT_URL cfg)) w)"

text \<open>\<^verbatim>\<open>draw.text(pos, s, ...)\<close>: the text is drawn onto the image, in place.\<close>

definition draw_text :: "int \<times> int \<Rightarrow> string \<Rightarrow> pil_image \<Rightarrow> pil_image io" where
  "draw_text pos s img w =
     (Inr (img\<lparr>texts := texts img @ [(pos, s)]\<rparr>), emit (DrawText pos s) w)"

text \<open>\<^verbatim>\<open>opendtu_data.get("total", {}).get(name, {})\<close>\<close>

definition total_field :: "json \<Rightarrow> string \<Rightarrow> error + json" where
  "total_field opendtu_data name =
     (case py_get opendtu_data ''total'' (JObj []) of Inl e \<Rightarrow> Inl e
      | Inr tot \<Rightarrow> py_get tot name (JObj []))"

text \<open>
  \<^verbatim>\<open>
  def embed_text(image, now):
      draw = ImageDraw.Draw(image)
      font = ImageFont.load_default(30)
      timestamp = now.astimezone().strftime(TIME_FORMAT)
      opendtu_data = get_opendtu_data()
      power = opendtu_data.get("total", {}).get("Power", {})
      power_string = f"Power: {format_opendtu_value(power)}"
      yield_day = opendtu_data.get("total", {}).get("YieldDay", {})
      yield_day_string = f"Yield Today: {format_opendtu_value(yield_day)}"
      draw.text((10, 10), timestamp, ...)
      draw.text((10, 40), power_string, ...)
      draw.text((10, 70), yield_day_string, ...)
      return image
  \<close>
  \<^verbatim>\<open>astimezone()\<close> attaches the system's local zone to the naive \<open>now\<close> and leaves
  its fields as they are; \<open>zone\<close> is that zone's name.
\<close>

definition embed_text ::
  "config \<Rightarrow> platform \<Rightarrow> pil_image \<Rightarrow> datetime \<Rightarrow> string \<Rightarrow> json http_reply \<Rightarrow> pil_image io"
  where
  "embed_text cfg lib img now zone reply =
     (let timestamp = strftime (TIME_FORMAT cfg) now zone in
      and_then (get_opendtu_data cfg reply) (\<lambda>opendtu_data.
      and_then (pure_step (total_field opendtu_data ''Power'')) (\<lambda>power.
      and_then (pure_step (format_opendtu_value lib power)) (\<lambda>power_text.
      and_then (pure_step (total_field opendtu_data ''YieldDay'')) (\<lambda>yield_day.
      and_then (pure_step (format_opendtu_value lib yield_day)) (\<lambda>yield_day_text.
      and_then (draw_text (10, 10) timestamp img) (\<lambda>img1.
      and_then (draw_text (10, 40) (''Power: '' @ power_text) img1) (\<lambda>img2.
      draw_text (10, 70) (''Yield Today: '' @ yield_day_text) img2))))))))"

text \<open>\<^verbatim>\<open>image.save(filename)\<close>: the encoded image replaces whatever the path held.\<close>

definition pil_save :: "platform \<Rightarrow> pil_image \<Rightarrow> string \<Rightarrow> disk \<Rightarrow> unit io" where
  "pil_save lib img filename d w =
     (case d of
        DiskOk \<Rightarrow>
          (Inr (), emit (FileWrite filename) (w\<lparr>files := (files w)(filename \<mapsto> jpeg_encode lib img)\<rparr>))
      | DiskFails None \<Rightarrow> (Inl OSError, w)
      | DiskFails (Some partial) \<Rightarrow> (Inl OSError, w\<lparr>files := (files w)(filename \<mapsto> partial)\<rparr>))"

text \<open>
  \<^verbatim>\<open>
  def save_image(image, now):
      timestamp = now.strftime("%Y%m%d_%H%M%S")
      filename = f"{SAVE_DIR}/image_{timestamp}.jpg"
      image.save(filename)
      print(f"Image saved to {filename}")
  \<close>
\<close>

definition image_filename :: "config \<Rightarrow> datetime \<Rightarrow> string" where
  "image_filename cfg now =
     SAVE_DIR cfg @ ''/image_'' @ strftime ''%Y%m%d_%H%M%S'' now [] @ ''.jpg''"

definition save_image :: "config \<Rightarrow> platform \<Rightarrow> pil_image \<Rightarrow> datetime \<Rightarrow> disk \<Rightarrow> unit io" where
  "save_image cfg lib img now d =
     (let filename = image_filename cfg now in
      and_then (pil_save lib img filename d) (\<lambda>_.
      print (''Image saved to '' @ filename)))"

text \<open>\<^verbatim>\<open>os.path.getsize\<close> and \<^verbatim>\<open>os.remove\<close>; both raise on a path that is no file.\<close>

definition getsize :: "string \<Rightarrow> nat io" where
  "getsize path w =
     (case files w path of None \<Rightarrow> (Inl OSError, w) | Some bytes \<Rightarrow> (Inr (length bytes), w))"

definition remove_file :: "string \<Rightarrow> unit io" where
  "remove_file path w =
     (case files w path of None \<Rightarrow> (Inl OSError, w)
      | Some bytes \<Rightarrow> (Inr (), emit (FileRemove path) (w\<lparr>files := (files w)(path := None)\<rparr>)))"

text \<open>
  \<^verbatim>\<open>
  def estimate_size_per_hour():
      image, _ = get_image()
      image.save("test.jpg")
      size = os.path.getsize("test.jpg")
      os.remove("test.jpg")
      return size * 3600 / TIMEOUT

  def estimate_frames_per_hour():
      return 3600 / TIMEOUT
  \<close>
\<close>

definition estimate_size_per_hour ::
  "config \<Rightarrow> platform \<Rightarrow> pil_image http_reply \<Rightarrow> datetime \<Rightarrow> disk \<Rightarrow> rat io" where
  "estimate_size_per_hour cfg lib reply now d =
     and_then (get_image cfg reply now) (\<lambda>(img, _).
     and_then (pil_save lib img ''test.jpg'' d) (\<lambda>_.
     and_then (getsize ''test.jpg'') (\<lambda>size.
     and_then (remove_file ''test.jpg'') (\<lambda>_.
     pure_step (py_truediv (int size * 3600) (TIMEOUT cfg))))))"

definition estimate_frames_per_hour :: "config \<Rightarrow> error + rat" where
  "estimate_frames_per_hour cfg = py_truediv 3600 (TIMEOUT cfg)"

text \<open>\<^verbatim>\<open>d[k]\<close>\<close>

fun py_subscript :: "json \<Rightarrow> string \<Rightarrow> error + json" where
  "py_subscript (JObj kvs) k =
     (case dict_lookup kvs k of None \<Rightarrow> Inl KeyError | Some v \<Rightarrow> Inr v)"
| "py_subscript _ k = Inl TypeError"

text \<open>\<^verbatim>\<open>x == 0\<close> on a decoded value: numbers compare by value, and \<^verbatim>\<open>False == 0\<close>.\<close>

fun py_eq_zero :: "json \<Rightarrow> bool" where
  "py_eq_zero (JInt i) = (i = 0)"
| "py_eq_zero (JFloat r) = (r = 0)"
| "py_eq_zero (JBool b) = (\<not> b)"
| "py_eq_zero _ = False"

text \<open>
  The first part of \<^verbatim>\<open>main\<close>, on the status the camera returned:
  \<^verbatim>\<open>
      outputs = status.get("outputs", {})
      if not outputs.get("snapshot", False):
          raise RuntimeError("Snapshot output is not enabled")
      snapshot = outputs["snapshot"]
      height = snapshot.get("height", 0)
      width = snapshot.get("width", 0)
      if height == 0 or width == 0:
          raise RuntimeError("Invalid snapshot resolution")
      print(f"Snapshot resolution: {width}x{height}")
  \<close>
\<close>

definition main_validating :: "platform \<Rightarrow> json \<Rightarrow> unit io" where
  "main_validating lib status =
     and_then (pure_step (py_get status ''outputs'' (JObj []))) (\<lambda>outputs.
     and_then (pure_step (py_get outputs ''snapshot'' (JBool False))) (\<lambda>enabled.
     if \<not> truthy enabled then pure_step (Inl (RuntimeError ''Snapshot output is not enabled''))
     else
       and_then (pure_step (py_subscript outputs ''snapshot'')) (\<lambda>snapshot.
       and_then (pure_step (py_get snapshot ''height'' (JInt 0))) (\<lambda>height.
       and_then (pure_step (py_get snapshot ''width'' (JInt 0))) (\<lambda>width.
       if py_eq_zero height \<or> py_eq_zero width
       then pure_step (Inl (RuntimeError ''Invalid snapshot resolution''))
       else print (''Snapshot resolution: '' @ py_str lib width @ ''x'' @ py_str lib height))))))"

text \<open>
  The second part, up to the loop:
  \<^verbatim>\<open>
      size_per_hour = estimate_size_per_hour()
      frames_per_hour = estimate_frames_per_hour()
      print(f"Estimated size per hour: {format_byte_size(size_per_hour)} ({frames_per_hour} frames)")
  \<close>
\<close>

definition main_estimating :: "config \<Rightarrow> platform \<Rightarrow> startup_input \<Rightarrow> unit io" where
  "main_estimating cfg lib start =
     and_then (estimate_size_per_hour cfg lib (sample_reply start) (sample_now start)
                 (sample_disk start)) (\<lambda>size_per_hour.
     and_then (pure_step (estimate_frames_per_hour cfg)) (\<lambda>frames_per_hour.
     print (''Estimated size per hour: '' @ format_byte_size size_per_hour @ '' (''
              @ float_repr lib frames_per_hour @ '' frames)'')))"

text \<open>\<^verbatim>\<open>time.sleep(secs)\<close>; a negative length is refused.\<close>

definition sleep :: "int \<Rightarrow> unit io" where
  "sleep secs w = (if secs < 0 then (Inl ValueError, w) else (Inr (), emit (Sleep secs) w))"

text \<open>
  One pass through the body of the loop:
  \<^verbatim>\<open>
      while True:
          image, now = get_image()
          image = embed_text(image, now)
          save_image(image, now)
          time.sleep(TIMEOUT)
  \<close>
\<close>

definition loop_body :: "config \<Rightarrow> platform \<Rightarrow> capture_input \<Rightarrow> unit io" where
  "loop_body cfg lib inp =
     and_then (get_image cfg (snapshot_reply inp) (captured_at inp)) (\<lambda>(img, now).
     and_then (embed_text cfg lib img now (zone_name inp) (telemetry_reply inp)) (\<lambda>img'.
     and_then (save_image cfg lib img' now (disk_state inp)) (\<lambda>_.
     sleep (TIMEOUT cfg))))"

text \<open>
  The loop has no exit of its own. It is run against the answers of the surroundings
  for a number of passes: \<open>Some e\<close> is the exception that ended it, \<open>None\<close> says it
  is still running when the answers are used up.
\<close>

fun capture_loop ::
  "config \<Rightarrow> platform \<Rightarrow> capture_input list \<Rightarrow> world \<Rightarrow> error option \<times> world" where
  "capture_loop cfg lib [] w = (None, w)"
| "capture_loop cfg lib (inp # inps) w =
     (case loop_body cfg lib inp w of
        (Inl e, w') \<Rightarrow> (Some e, w')
      | (Inr _, w') \<Rightarrow> capture_loop cfg lib inps w')"

definition main ::
  "config \<Rightarrow> platform \<Rightarrow> startup_input \<Rightarrow> capture_input list \<Rightarrow> world
     \<Rightarrow> error option \<times> world" where
  "main cfg lib start inps w =
     (case and_then (get_camera_status cfg (status_reply start)) (\<lambda>status.
           and_then (main_validating lib status) (\<lambda>_.
           main_estimating cfg lib start)) w of
        (Inl e, w') \<Rightarrow> (Some e, w')
      | (Inr _, w') \<Rightarrow> capture_loop cfg lib inps w')"

text \<open>
  The script calls \<^verbatim>\<open>main()\<close> with no handler around it: an exception that leaves
  \<^verbatim>\<open>main\<close> ends the interpreter with status 1. \<open>None\<close>: the process has not exited.
\<close>

definition exit_status :: "error option \<Rightarrow> nat option" where
  "exit_status r = (case r of None \<Rightarrow> None | Some e \<Rightarrow> Some 1)"

section \<open>Notions used to state the properties\<close>

text \<open>A platform and a world to evaluate the program on concrete inputs.\<close>

definition example_platform :: platform where
  "example_platform =
     \<lparr>float_repr = (\<lambda>r. format_f r 1), container_repr = (\<lambda>j. ''{}''),
      jpeg_encode = (\<lambda>img. pixels img @ concat (map (\<lambda>(pos, s). map of_char s) (texts img)))\<rparr>"

definition empty_world :: world where
  "empty_world = \<lparr>files = (\<lambda>path. None), trace = []\<rparr>"

text \<open>A reading in which every field that the payload lacks holds the formatter's default.\<close>

definition reading_with_defaults :: "(string \<times> json) list \<Rightarrow> json" where
  "reading_with_defaults kvs =
     JObj [(''v'', case dict_lookup kvs ''v'' of None \<Rightarrow> JInt 0 | Some x \<Rightarrow> x),
           (''u'', case dict_lookup kvs ''u'' of None \<Rightarrow> JStr [] | Some x \<Rightarrow> x),
           (''d'', case dict_lookup kvs ''d'' of None \<Rightarrow> JInt 0 | Some x \<Rightarrow> x)]"

definition example_time :: datetime where
  "example_time =
     \<lparr>dt_year = 2024, dt_month = 3, dt_day = 9, dt_hour = 7, dt_minute = 5, dt_second = 59,
      dt_microsecond = 250000\<rparr>"

definition example_image :: pil_image where
  "example_image = \<lparr>pixels = [1, 2, 3], texts = []\<rparr>"

text \<open>A world that already holds a \<^verbatim>\<open>test.jpg\<close> and one stored frame.\<close>

definition example_world :: world where
  "example_world =
     \<lparr>files = [''test.jpg'' \<mapsto> [7, 7], ''images/image_20240309_070558.jpg'' \<mapsto> [9]],
      trace = []\<rparr>"

text \<open>
  The shape of a status document: it is an object, and its \<^verbatim>\<open>outputs\<close>, when it has
  one, is an object. \<open>snapshot_entry\<close> is what it holds at \<^verbatim>\<open>outputs.snapshot\<close>.
\<close>

definition is_object :: "json \<Rightarrow> bool" where
  "is_object j = (case j of JObj kvs \<Rightarrow> True | _ \<Rightarrow> False)"

definition outputs_well_formed :: "json \<Rightarrow> bool" where
  "outputs_well_formed status =
     (case status of
        JObj items \<Rightarrow>
          (case dict_lookup items ''outputs'' of None \<Rightarrow> True | Some outs \<Rightarrow> is_object outs)
      | _ \<Rightarrow> False)"

definition snapshot_entry :: "json \<Rightarrow> json option" where
  "snapshot_entry status =
     (case status of
        JObj items \<Rightarrow>
          (case dict_lookup items ''outputs'' of
             Some (JObj outs) \<Rightarrow> dict_lookup outs ''snapshot''
           | _ \<Rightarrow> None)
      | _ \<Rightarrow> None)"

text \<open>A dimension that is a number above zero; one that is the number zero or is missing.\<close>

definition positive :: "json option \<Rightarrow> bool" where
  "positive x = (case x of Some (JInt i) \<Rightarrow> 0 < i | Some (JFloat r) \<Rightarrow> 0 < r | _ \<Rightarrow> False)"

definition zero_or_absent :: "json option \<Rightarrow> bool" where
  "zero_or_absent x =
     (case x of None \<Rightarrow> True | Some (JInt i) \<Rightarrow> i = 0 | Some (JFloat r) \<Rightarrow> r = 0 | _ \<Rightarrow> False)"

text \<open>The two errors with which \<^verbatim>\<open>main\<close> rejects a capability.\<close>

definition capability_invalid :: "error + unit \<Rightarrow> bool" where
  "capability_invalid r =
     (r = Inl (RuntimeError ''Snapshot output is not enabled'')
      \<or> r = Inl (RuntimeError ''Invalid snapshot resolution''))"

text \<open>
  The rationals that are doubles: a mantissa below \<open>2^53\<close> times a power of two in
  the range of the exponents.
\<close>

definition is_double :: "rat \<Rightarrow> bool" where
  "is_double q =
     (\<exists>m k. \<bar>m\<bar> < 2 ^ 53 \<and> - 1074 \<le> k \<and> k \<le> 971 \<and> q = of_int m * 2 powi k)"

definition status_document :: "json \<Rightarrow> json" where
  "status_document snapshot = JObj [(''outputs'', JObj [(''snapshot'', snapshot)])]"

definition example_startup :: startup_input where
  "example_startup =
     \<lparr>status_reply =
        Reply 200 (Some (status_document (JObj [(''height'', JInt 480), (''width'', JInt 640)]))),
      sample_reply = Reply 200 (Some example_image), sample_now = example_time,
      sample_disk = DiskOk\<rparr>"

text \<open>
  The two texts an annotation draws below the timestamp, as the telemetry reply
  determines them, or the exception the annotation dies of.
\<close>

definition annotation_texts :: "platform \<Rightarrow> json http_reply \<Rightarrow> error + string \<times> string" where
  "annotation_texts lib reply =
     (case response_json reply of Inl e \<Rightarrow> Inl e | Inr opendtu_data \<Rightarrow>
      case total_field opendtu_data ''Power'' of Inl e \<Rightarrow> Inl e | Inr power_field \<Rightarrow>
      case format_opendtu_value lib power_field of Inl e \<Rightarrow> Inl e | Inr power_text \<Rightarrow>
      case total_field opendtu_data ''YieldDay'' of Inl e \<Rightarrow> Inl e | Inr yield_day \<Rightarrow>
      case format_opendtu_value lib yield_day of Inl e \<Rightarrow> Inl e | Inr yield_day_text \<Rightarrow>
        Inr (''Power: '' @ power_text, ''Yield Today: '' @ yield_day_text))"

text \<open>
  The sequence of the specification for one pass of the loop: fetch the frame, annotate
  it (the telemetry request, then the three texts), persist it (the write, then the
  console line), sleep for the interval.
\<close>

definition fetch_events :: "config \<Rightarrow> event list" where
  "fetch_events cfg = [HttpGet (CAMERA_SNAPSHOT_URL cfg)]"

definition annotate_events :: "config \<Rightarrow> platform \<Rightarrow> capture_input \<Rightarrow> event list" where
  "annotate_events cfg lib inp =
     HttpGet (OPENDTU_STATUS_URL cfg) #
     (case annotation_texts lib (telemetry_reply inp) of
        Inl e \<Rightarrow> []
      | Inr (p, y) \<Rightarrow>
          [DrawText (10, 10) (strftime (TIME_FORMAT cfg) (captured_at inp) (zone_name inp)),
           DrawText (10, 40) p, DrawText (10, 70) y])"

definition persist_events :: "config \<Rightarrow> capture_input \<Rightarrow> event list" where
  "persist_events cfg inp =
     [FileWrite (image_filename cfg (captured_at inp)),
      Print (''Image saved to '' @ image_filename cfg (captured_at inp))]"

definition pass_events :: "config \<Rightarrow> platform \<Rightarrow> capture_input \<Rightarrow> event list" where
  "pass_events cfg lib inp =
     fetch_events cfg @ annotate_events cfg lib inp @ persist_events cfg inp @ [Sleep (TIMEOUT cfg)]"

text \<open>
  The answers with which a pass meets no exception: a frame arrives and decodes, the
  telemetry yields both texts, the disk takes the file, and the interval is not negative.
\<close>

definition frame_arrives :: "pil_image http_reply \<Rightarrow> bool" where
  "frame_arrives reply = (case reply of Reply status (Some img) \<Rightarrow> True | _ \<Rightarrow> False)"

definition pass_ok :: "config \<Rightarrow> platform \<Rightarrow> capture_input \<Rightarrow> bool" where
  "pass_ok cfg lib inp =
     (frame_arrives (snapshot_reply inp) \<and> \<not> isl (annotation_texts lib (telemetry_reply inp))
      \<and> disk_state inp = DiskOk \<and> 0 \<le> TIMEOUT cfg)"


definition is_drawing :: "event \<Rightarrow> bool" where
  "is_drawing ev = (case ev of DrawText pos s \<Rightarrow> True | _ \<Rightarrow> False)"

definition is_write :: "event \<Rightarrow> bool" where
  "is_write ev = (case ev of FileWrite path \<Rightarrow> True | _ \<Rightarrow> False)"

text \<open>The frame as \<^verbatim>\<open>embed_text\<close> leaves it when it succeeds.\<close>

definition annotated :: "config \<Rightarrow> platform \<Rightarrow> capture_input \<Rightarrow> pil_image \<Rightarrow> pil_image" where
  "annotated cfg lib inp img =
     (case annotation_texts lib (telemetry_reply inp) of
        Inl e \<Rightarrow> img
      | Inr (p, y) \<Rightarrow>
          img\<lparr>texts := texts img @
            [((10, 10), strftime (TIME_FORMAT cfg) (captured_at inp) (zone_name inp)),
             ((10, 40), p), ((10, 70), y)]\<rparr>)"

text \<open>
  What a run of passes leaves on the disk. A pass that meets no exception stores, under
  the name made from its capture time, the encoding of the frame it fetched with the
  three texts drawn on it; a later pass with the same name replaces the file.
\<close>

definition fetched_frame :: "pil_image http_reply \<Rightarrow> pil_image" where
  "fetched_frame reply =
     (case reply of Reply status (Some img) \<Rightarrow> img | _ \<Rightarrow> \<lparr>pixels = [], texts = []\<rparr>)"

definition stored_frame :: "config \<Rightarrow> platform \<Rightarrow> capture_input \<Rightarrow> nat list" where
  "stored_frame cfg lib inp =
     jpeg_encode lib (annotated cfg lib inp (fetched_frame (snapshot_reply inp)))"

definition files_after ::
  "config \<Rightarrow> platform \<Rightarrow> capture_input list \<Rightarrow> (string \<Rightarrow> nat list option)
     \<Rightarrow> (string \<Rightarrow> nat list option)" where
  "files_after cfg lib inps fs =
     foldl (\<lambda>fs inp. fs(image_filename cfg (captured_at inp) \<mapsto> stored_frame cfg lib inp)) fs inps"







text \<open>A capture with a frame, a telemetry reply that has the power but not the yield, a good disk.\<close>

definition example_capture :: capture_input where
  "example_capture =
     \<lparr>snapshot_reply = Reply 200 (Some example_image), captured_at = example_time,
      zone_name = ''CET'',
      telemetry_reply = Reply 200 (Some (JObj [(''total'', JObj [(''Power'',
          JObj [(''v'', JFloat (1234 / 10)), (''u'', JStr ''W''), (''d'', JInt 2)])])])),
      disk_state = DiskOk\<rparr>"

text \<open>A capture timestamp cut to the second.\<close>

definition second_key :: "datetime \<Rightarrow> nat \<times> nat \<times> nat \<times> nat \<times> nat \<times> nat" where
  "second_key t = (dt_year t, dt_month t, dt_day t, dt_hour t, dt_minute t, dt_second t)"

section \<open>Evaluation of the number formatter\<close>

lemma round_half_even_divide:
  assumes "0 < b"
  shows "round_half_even (of_int a / of_int b) =
     (if 2 * (a mod b) < b then a div b
      else if b < 2 * (a mod b) then a div b + 1
      else if even (a div b) then a div b else a div b + 1)"
proof -
  have fl: "\<lfloor>(of_int a / of_int b :: rat)\<rfloor> = a div b"
    by (rule floor_divide_of_int_eq)
  have "(of_int a :: rat) = of_int (a div b) * of_int b + of_int (a mod b)"
    by (metis of_int_add of_int_mult div_mult_mod_eq)
  then have fr: "(of_int a / of_int b :: rat) - of_int (a div b) = of_int (a mod b) / of_int b"
    using assms by (simp add: field_simps)
  have lt: "(of_int (a mod b) / of_int b :: rat) < 1 / 2 \<longleftrightarrow> 2 * (a mod b) < b"
  proof -
    have "(of_int (a mod b) / of_int b :: rat) < 1 / 2
        \<longleftrightarrow> (of_int (2 * (a mod b)) :: rat) < of_int b"
      using assms by (simp add: field_simps)
    then show ?thesis by (simp only: of_int_less_iff)
  qed
  have gt: "1 / 2 < (of_int (a mod b) / of_int b :: rat) \<longleftrightarrow> b < 2 * (a mod b)"
  proof -
    have "1 / 2 < (of_int (a mod b) / of_int b :: rat)
        \<longleftrightarrow> (of_int b :: rat) < of_int (2 * (a mod b))"
      using assms by (simp add: field_simps)
    then show ?thesis by (simp only: of_int_less_iff)
  qed
  show ?thesis
    unfolding round_half_even_def Let_def fl fr lt gt by (rule refl)
qed

lemma round_half_even_numeral_divide:
  "round_half_even (numeral m / numeral n) =
     (if 2 * (numeral m mod numeral n) < (numeral n :: int) then numeral m div numeral n
      else if (numeral n :: int) < 2 * (numeral m mod numeral n) then numeral m div numeral n + 1
      else if even (numeral m div numeral n :: int) then numeral m div numeral n
      else numeral m div numeral n + 1)"
  using round_half_even_divide [of "numeral n" "numeral m"] by simp

lemma round_half_even_one_divide:
  "round_half_even (1 / numeral n) =
     (if 2 * (1 mod numeral n) < (numeral n :: int) then 1 div numeral n
      else if (numeral n :: int) < 2 * (1 mod numeral n) then 1 div numeral n + 1
      else if even (1 div numeral n :: int) then 1 div numeral n else 1 div numeral n + 1)"
  using round_half_even_divide [of "numeral n" 1] by simp

lemma round_half_even_of_int: "round_half_even (of_int k) = k"
  by (simp add: round_half_even_def)

lemma round_half_even_numeral: "round_half_even (numeral k) = numeral k"
  using round_half_even_of_int [of "numeral k"] by simp

lemma round_half_even_0: "round_half_even 0 = 0"
  using round_half_even_of_int [of 0] by simp

lemma round_half_even_1: "round_half_even 1 = 1"
  using round_half_even_of_int [of 1] by simp

lemmas float_eval =
  py_truediv_def int_to_float_def nearest_double_def floor_log2_def round_half_even_div_def
  scale2_def bit_length.simps Let_def

lemmas format_eval =
  format_f_def round_half_even_numeral_divide round_half_even_one_divide
  round_half_even_numeral round_half_even_0 round_half_even_1
  show_nat.simps low_digits.simps digit_char_def show_int_def format_float_def float_eval

section \<open>The floats the program computes\<close>

text \<open>
  Where the exact quotient is a double, the division returns it: the rounding has
  nothing to round.
\<close>

lemma scale2_powi: "scale2 x s = x * 2 powi s"
  by (simp add: scale2_def power_int_def field_simps)

lemma bit_length_bounds:
  assumes "0 < n"
  shows "2 ^ (bit_length n - 1) \<le> n \<and> n < 2 ^ bit_length n"
  using assms
proof (induction n rule: bit_length.induct)
  case (1 n)
  show ?case
  proof (cases "n div 2 = 0")
    case True
    with "1.prems" have "n = 1" by (simp add: div_eq_0_iff)
    then show ?thesis by (simp add: bit_length.simps [of "Suc 0"] bit_length.simps [of 0])
  next
    case False
    with "1.prems" "1.IH" have ih: "2 ^ (bit_length (n div 2) - 1) \<le> n div 2"
      "n div 2 < 2 ^ bit_length (n div 2)" by simp_all
    from False have pos: "0 < bit_length (n div 2)"
      by (simp add: bit_length.simps [of "n div 2"])
    have bl: "bit_length n = Suc (bit_length (n div 2))"
      using "1.prems" by (simp add: bit_length.simps [of n])
    from pos have "(2::nat) ^ bit_length (n div 2) = 2 * 2 ^ (bit_length (n div 2) - 1)"
      by (cases "bit_length (n div 2)") simp_all
    with ih(1) have lo: "2 ^ bit_length (n div 2) \<le> n" by linarith
    from ih(2) have "n < 2 * 2 ^ bit_length (n div 2)" by linarith
    with lo show ?thesis by (simp add: bl)
  qed
qed

lemma round_half_even_div_exact:
  assumes "0 < d"
  shows "round_half_even_div (N * d) d = N"
  using assms by (simp add: round_half_even_div_def)

lemma floor_log2_le:
  assumes "0 < a" and "0 < b"
  shows "2 powi (floor_log2 a b) \<le> (of_nat a / of_nat b :: rat)"
proof -
  define d where "d = int (bit_length a) - int (bit_length b)"
  define c where "c = (if 0 \<le> d then b * 2 ^ nat d \<le> a else b \<le> a * 2 ^ nat (- d))"
  have fl: "floor_log2 a b = (if c then d else d - 1)"
    by (simp add: floor_log2_def d_def c_def Let_def)
  have bpos: "(0::rat) < of_nat b" using assms by simp
  show ?thesis
  proof (cases c)
    case True
    show ?thesis
    proof (cases "0 \<le> d")
      case nonneg: True
      with True have "b * 2 ^ nat d \<le> a" by (simp add: c_def)
      then have "(of_nat (b * 2 ^ nat d) :: rat) \<le> of_nat a" by (simp only: of_nat_le_iff)
      then have "(2 ^ nat d :: rat) \<le> of_nat a / of_nat b"
        using bpos by (simp add: field_simps)
      with nonneg True show ?thesis by (simp add: fl power_int_def)
    next
      case neg: False
      with True have "b \<le> a * 2 ^ nat (- d)" by (simp add: c_def)
      then have "(of_nat b :: rat) \<le> of_nat (a * 2 ^ nat (- d))" by (simp only: of_nat_le_iff)
      then have "(1 / 2 ^ nat (- d) :: rat) \<le> of_nat a / of_nat b"
        using bpos by (simp add: field_simps)
      with neg True show ?thesis by (simp add: fl power_int_def field_simps)
    qed
  next
    case False
    from bit_length_bounds [OF assms(1)] have a: "(2 ^ (bit_length a - 1) :: rat) \<le> of_nat a"
      by (metis of_nat_le_iff of_nat_numeral of_nat_power)
    from bit_length_bounds [OF assms(2)] have b: "(of_nat b :: rat) < 2 ^ bit_length b"
      by (metis of_nat_less_iff of_nat_numeral of_nat_power)
    from assms(1) have la: "0 < bit_length a" by (simp add: bit_length.simps [of a])
    have "d - 1 = int (bit_length a - 1) - int (bit_length b)"
      using la by (simp add: d_def of_nat_diff)
    then have "(2 powi (d - 1) :: rat) = 2 powi (int (bit_length a - 1)) / 2 powi (int (bit_length b))"
      by (simp only: power_int_diff [of "2::rat", simplified])
    also have "\<dots> = 2 ^ (bit_length a - 1) / 2 ^ bit_length b" by simp
    also have "\<dots> \<le> of_nat a / 2 ^ bit_length b"
      using a by (simp add: divide_right_mono)
    also have "\<dots> \<le> of_nat a / of_nat b"
      using b bpos by (intro divide_left_mono) (simp_all add: less_imp_le)
    finally show ?thesis using False by (simp add: fl)
  qed
qed


lemma nearest_double_exact:
  assumes "0 < a" and "0 < b"
    and q: "(of_nat a / of_nat b :: rat) = of_nat M * 2 powi k"
    and M: "M < 2 ^ 53" and k: "- 1074 \<le> k" "k \<le> 971"
  shows "nearest_double a b = Inr (of_nat a / of_nat b)"
proof -
  define s where "s = max (floor_log2 a b) (- 1022) - 52"
  define m where "m = (if 0 \<le> s then round_half_even_div (int a) (int b * 2 ^ nat s)
                 else round_half_even_div (int a * 2 ^ nat (- s)) (int b))"
  have bpos: "(0::rat) < of_nat b" using assms by simp
  have "(of_nat M :: rat) < 2 ^ 53"
    using M by (metis of_nat_less_iff of_nat_numeral of_nat_power)
  then have "(of_nat M :: rat) * 2 powi k < 2 ^ 53 * 2 powi k"
    by (simp add: mult_strict_right_mono)
  also have "\<dots> = 2 powi (53 + k)"
    by (simp add: power_int_add)
  finally have up: "(of_nat a / of_nat b :: rat) < 2 powi (53 + k)"
    by (simp only: q)
  have "floor_log2 a b < 53 + k"
  proof (rule ccontr)
    assume "\<not> floor_log2 a b < 53 + k"
    then have "(2::rat) powi (53 + k) \<le> 2 powi (floor_log2 a b)"
      by (intro power_int_increasing) simp_all
    with floor_log2_le [OF assms(1,2)] up show False by simp
  qed
  with k(1) have sk: "s \<le> k" by (simp add: s_def)
  define j where "j = nat (k - s)"
  define N where "N = M * 2 ^ j"
  have "(2::rat) powi k = 2 powi (s + int j)" using sk by (simp add: j_def)
  also have "\<dots> = 2 powi s * 2 ^ j" by (simp add: power_int_add)
  finally have qN: "(of_nat a / of_nat b :: rat) = of_nat N * 2 powi s"
    by (simp add: q N_def)
  have mN: "m = int N"
  proof (cases "0 \<le> s")
    case True
    with qN have "(of_nat a / of_nat b :: rat) = of_nat N * 2 ^ nat s"
      by (simp add: power_int_def)
    then have "(of_nat a :: rat) = of_nat (N * (b * 2 ^ nat s))"
      using bpos by (simp add: field_simps)
    then have "a = N * (b * 2 ^ nat s)" by (simp only: of_nat_eq_iff)
    then have "int a = int N * (int b * 2 ^ nat s)" by simp
    moreover have "0 < int b * 2 ^ nat s" using assms(2) by simp
    ultimately show ?thesis
      using True by (simp only: m_def if_True round_half_even_div_exact)
  next
    case False
    with qN have "(of_nat a / of_nat b :: rat) = of_nat N / 2 ^ nat (- s)"
      by (simp add: power_int_def field_simps)
    then have "(of_nat (a * 2 ^ nat (- s)) :: rat) = of_nat (N * b)"
      using bpos by (simp add: field_simps)
    then have "a * 2 ^ nat (- s) = N * b" by (simp only: of_nat_eq_iff)
    then have "int a * 2 ^ nat (- s) = int N * int b"
      by (metis of_nat_mult of_nat_numeral of_nat_power)
    moreover have "0 < int b" using assms(2) by simp
    ultimately show ?thesis
      using False by (simp only: m_def if_False round_half_even_div_exact)
  qed
  have no_overflow: "\<not> (971 < s \<or> (s = 971 \<and> 2 ^ 53 \<le> m))"
  proof -
    from sk k(2) have "s \<le> 971" by simp
    moreover have "m < 2 ^ 53" if "s = 971"
    proof -
      from that sk k(2) have "j = 0" by (simp add: j_def)
      with M show ?thesis by (simp add: mN N_def)
    qed
    ultimately show ?thesis by fastforce
  qed
  have "nearest_double a b = Inr (scale2 (of_int m) s)"
    using assms(1) no_overflow
    by (simp add: nearest_double_def Let_def s_def [symmetric] m_def [symmetric])
  also have "scale2 (of_int m) s = of_nat a / of_nat b"
    by (simp add: scale2_powi mN qN)
  finally show ?thesis .
qed

lemma is_double_abs:
  assumes "is_double q"
  shows "is_double \<bar>q\<bar>"
proof -
  from assms obtain m k where mk: "\<bar>m\<bar> < 2 ^ 53" "- 1074 \<le> k" "k \<le> 971"
    "q = of_int m * 2 powi k"
    by (auto simp: is_double_def)
  have "\<bar>q\<bar> = of_int \<bar>m\<bar> * 2 powi k"
    by (simp add: mk(4) abs_mult)
  with mk(1-3) show ?thesis
    unfolding is_double_def by (intro exI [of _ "\<bar>m\<bar>"] exI [of _ k]) simp
qed

lemma nearest_double_is_double:
  assumes "0 < b" and "is_double (of_nat a / of_nat b)"
  shows "nearest_double a b = Inr (of_nat a / of_nat b)"
proof (cases "a = 0")
  case True
  then show ?thesis by (simp add: nearest_double_def)
next
  case False
  then have apos: "0 < a" by simp
  from assms(2) obtain m k where mk: "\<bar>m\<bar> < 2 ^ 53" "- 1074 \<le> k" "k \<le> 971"
    "(of_nat a / of_nat b :: rat) = of_int m * 2 powi k"
    by (auto simp: is_double_def)
  have "(0::rat) < of_nat a / of_nat b" using apos assms(1) by simp
  with mk(4) have "(0::rat) < of_int m * 2 powi k" by simp
  moreover have "(0::rat) < 2 powi k" by simp
  ultimately have "(0::rat) < of_int m" by (simp add: zero_less_mult_iff)
  then have mpos: "0 < m" by simp
  then have m: "(of_nat (nat m) :: rat) = of_int m" by simp
  show ?thesis
  proof (rule nearest_double_exact [where M = "nat m" and k = k])
    show "0 < a" "0 < b" by fact+
    show "(of_nat a / of_nat b :: rat) = of_nat (nat m) * 2 powi k"
      by (simp only: m mk(4))
    show "nat m < 2 ^ 53" using mk(1) mpos by (simp add: nat_less_iff)
    show "- 1074 \<le> k" "k \<le> 971" by fact+
  qed
qed

lemma py_truediv_exact:
  assumes "b \<noteq> 0" and "is_double (of_int a / of_int b)"
  shows "py_truediv a b = Inr (of_int a / of_int b)"
proof -
  define x :: rat where "x = \<bar>of_int a / of_int b\<bar>"
  have abs: "(of_nat (nat \<bar>a\<bar>) / of_nat (nat \<bar>b\<bar>) :: rat) = x"
    by (simp add: x_def)
  from assms(1) have "0 < nat \<bar>b\<bar>" by simp
  moreover have "is_double (of_nat (nat \<bar>a\<bar>) / of_nat (nat \<bar>b\<bar>))"
    using is_double_abs [OF assms(2)] by (simp only: abs x_def)
  ultimately have "nearest_double (nat \<bar>a\<bar>) (nat \<bar>b\<bar>)
      = Inr (of_nat (nat \<bar>a\<bar>) / of_nat (nat \<bar>b\<bar>))"
    by (rule nearest_double_is_double)
  then have n: "nearest_double (nat \<bar>a\<bar>) (nat \<bar>b\<bar>) = Inr x"
    by (simp only: abs)
  have sgn: "(if (a < 0) = (b < 0) then x else - x) = of_int a / of_int b"
    unfolding x_def using assms(1)
    by (auto simp: abs_if divide_less_0_iff zero_less_divide_iff not_less le_less)
  show ?thesis
    unfolding py_truediv_def n using assms(1) sgn by simp
qed

lemma is_double_of_nat:
  assumes "n < 2 ^ 53"
  shows "is_double (of_nat n)"
  unfolding is_double_def
proof (intro exI conjI)
  show "\<bar>int n\<bar> < 2 ^ 53" using assms by (simp add: nat_less_iff flip: of_nat_less_iff)
  show "- 1074 \<le> (0::int)" "(0::int) \<le> 971" by simp_all
  show "(of_nat n :: rat) = of_int (int n) * 2 powi 0" by simp
qed

text \<open>
  Where it is not, the division returns a double next to it: within half a unit of the
  last of the 53 bits, or of the smallest subnormal.
\<close>

lemma round_half_even_div_near:
  assumes "0 < d"
  shows "\<bar>of_int (round_half_even_div n d) - (of_int n / of_int d :: rat)\<bar> \<le> 1 / 2"
proof -
  define q where "q = n div d"
  define r where "r = n mod d"
  have r: "0 \<le> r" "r < d" using assms by (simp_all add: r_def)
  have "n = q * d + r" by (simp add: q_def r_def)
  then have "(of_int n :: rat) = of_int q * of_int d + of_int r"
    by (metis of_int_add of_int_mult)
  then have nd: "(of_int n / of_int d :: rat) = of_int q + of_int r / of_int d"
    using assms by (simp add: field_simps)
  have d: "(0::rat) < of_int d" using assms by simp
  have r0: "(0::rat) \<le> of_int r / of_int d" using r(1) d by simp
  consider "2 * r < d" | "d < 2 * r" | "2 * r = d" by linarith
  then show ?thesis
  proof cases
    case 1
    then have res: "round_half_even_div n d = q"
      by (simp add: round_half_even_div_def Let_def q_def r_def)
    from 1 have "(of_int (2 * r) :: rat) < of_int d" by (simp only: of_int_less_iff)
    then have "(of_int r / of_int d :: rat) < 1 / 2" using d by (simp add: field_simps)
    with r0 show ?thesis by (simp add: res nd)
  next
    case 2
    then have res: "round_half_even_div n d = q + 1"
      by (simp add: round_half_even_div_def Let_def q_def r_def)
    from 2 have "(of_int d :: rat) < of_int (2 * r)" by (simp only: of_int_less_iff)
    then have lo: "(1 / 2 :: rat) < of_int r / of_int d" using d by (simp add: field_simps)
    from r(2) have "(of_int r :: rat) < of_int d" by (simp only: of_int_less_iff)
    then have "(of_int r / of_int d :: rat) < 1" using d by (simp add: field_simps)
    with lo show ?thesis by (simp add: res nd)
  next
    case 3
    then have res: "round_half_even_div n d = q \<or> round_half_even_div n d = q + 1"
      by (simp add: round_half_even_div_def Let_def q_def r_def)
    from 3 have "(of_int (2 * r) :: rat) = of_int d" by (simp only: of_int_eq_iff)
    then have h: "(of_int r / of_int d :: rat) = 1 / 2" using d by (simp add: field_simps)
    from res show ?thesis
    proof
      assume a: "round_half_even_div n d = q"
      have "of_int (round_half_even_div n d) - of_int n / of_int d = (- (1 / 2) :: rat)"
        unfolding a nd h by simp
      then show ?thesis by simp
    next
      assume a: "round_half_even_div n d = q + 1"
      have "of_int (round_half_even_div n d) - of_int n / of_int d = (1 / 2 :: rat)"
        unfolding a nd h by simp
      then show ?thesis by simp
    qed
  qed
qed

lemma floor_log2_less:
  assumes "0 < a" and "0 < b"
  shows "(of_nat a / of_nat b :: rat) < 2 powi (floor_log2 a b + 1)"
proof -
  define d where "d = int (bit_length a) - int (bit_length b)"
  define c where "c = (if 0 \<le> d then b * 2 ^ nat d \<le> a else b \<le> a * 2 ^ nat (- d))"
  have fl: "floor_log2 a b = (if c then d else d - 1)"
    by (simp add: floor_log2_def d_def c_def Let_def)
  have bpos: "(0::rat) < of_nat b" using assms by simp
  show ?thesis
  proof (cases c)
    case False
    show ?thesis
    proof (cases "0 \<le> d")
      case nonneg: True
      with False have "a < b * 2 ^ nat d" by (simp add: c_def)
      then have "(of_nat a :: rat) < of_nat (b * 2 ^ nat d)" by (simp only: of_nat_less_iff)
      then have "(of_nat a / of_nat b :: rat) < 2 ^ nat d"
        using bpos by (simp add: field_simps)
      with nonneg False show ?thesis by (simp add: fl power_int_def)
    next
      case neg: False
      with False have "a * 2 ^ nat (- d) < b" by (simp add: c_def)
      then have "(of_nat (a * 2 ^ nat (- d)) :: rat) < of_nat b" by (simp only: of_nat_less_iff)
      then have "(of_nat a / of_nat b :: rat) < 1 / 2 ^ nat (- d)"
        using bpos by (simp add: field_simps)
      with neg False show ?thesis by (simp add: fl power_int_def field_simps)
    qed
  next
    case True
    from bit_length_bounds [OF assms(1)] have a: "(of_nat a :: rat) < 2 ^ bit_length a"
      by (metis of_nat_less_iff of_nat_numeral of_nat_power)
    from bit_length_bounds [OF assms(2)] have b: "(2 ^ (bit_length b - 1) :: rat) \<le> of_nat b"
      by (metis of_nat_le_iff of_nat_numeral of_nat_power)
    from assms(2) have lb: "0 < bit_length b" by (simp add: bit_length.simps [of b])
    have "d + 1 = int (bit_length a) - int (bit_length b - 1)"
      using lb by (simp add: d_def of_nat_diff)
    then have "(2 powi (d + 1) :: rat) = 2 powi (int (bit_length a)) / 2 powi (int (bit_length b - 1))"
      by (simp only: power_int_diff [of "2::rat", simplified])
    also have "\<dots> = 2 ^ bit_length a / 2 ^ (bit_length b - 1)" by simp
    finally have e: "(2 powi (d + 1) :: rat) = 2 ^ bit_length a / 2 ^ (bit_length b - 1)" .
    have "(of_nat a / of_nat b :: rat) \<le> of_nat a / 2 ^ (bit_length b - 1)"
      using b bpos by (intro divide_left_mono) simp_all
    also have "\<dots> < 2 ^ bit_length a / 2 ^ (bit_length b - 1)"
      using a by (simp add: divide_strict_right_mono)
    finally show ?thesis using True by (simp add: fl e)
  qed
qed


lemma nearest_double_near:
  assumes "0 < a" and "0 < b" and res: "nearest_double a b = Inr x"
  shows "is_double x
     \<and> \<bar>x - of_nat a / of_nat b\<bar> \<le> 2 powi (max (floor_log2 a b) (- 1022) - 53)"
proof -
  define q :: rat where "q = of_nat a / of_nat b"
  define s where "s = max (floor_log2 a b) (- 1022) - 52"
  define m where "m = (if 0 \<le> s then round_half_even_div (int a) (int b * 2 ^ nat s)
                 else round_half_even_div (int a * 2 ^ nat (- s)) (int b))"
  define y :: rat where "y = q * 2 powi (- s)"
  have bpos: "(0::rat) < of_nat b" using assms by simp
  have qpos: "0 < q" using assms by (simp add: q_def)
  have ypos: "0 < y" using qpos by (simp add: y_def)
  have nd: "nearest_double a b
      = (if 971 < s \<or> (s = 971 \<and> 2 ^ 53 \<le> m) then Inl OverflowError
         else Inr (scale2 (of_int m) s))"
    using assms(1) by (simp add: nearest_double_def Let_def s_def [symmetric] m_def [symmetric])
  with res have no_overflow: "\<not> (971 < s \<or> (s = 971 \<and> 2 ^ 53 \<le> m))"
    and x: "x = of_int m * 2 powi s"
    by (auto simp: scale2_powi split: if_splits)
  have near: "\<bar>of_int m - y\<bar> \<le> 1 / 2"
  proof (cases "0 \<le> s")
    case True
    have "(of_int (int a) / of_int (int b * 2 ^ nat s) :: rat) = y"
      using True by (simp add: y_def q_def power_int_def field_simps)
    moreover have "0 < int b * 2 ^ nat s" using assms(2) by simp
    ultimately show ?thesis
      using round_half_even_div_near [of "int b * 2 ^ nat s" "int a"] True
      by (simp only: m_def if_True)
  next
    case False
    have "(of_int (int a * 2 ^ nat (- s)) / of_int (int b) :: rat) = y"
      using False by (simp add: y_def q_def power_int_def field_simps)
    moreover have "0 < int b" using assms(2) by simp
    ultimately show ?thesis
      using round_half_even_div_near [of "int b" "int a * 2 ^ nat (- s)"] False
      by (simp only: m_def if_False)
  qed
  have xq: "x - q = (of_int m - y) * 2 powi s"
  proof -
    have "y * 2 powi s = q * (2 powi (- s) * 2 powi s)" by (simp add: y_def)
    also have "(2 powi (- s) * 2 powi s :: rat) = 1"
      by (simp add: power_int_minus)
    finally show ?thesis by (simp add: x algebra_simps)
  qed
  have "\<bar>x - q\<bar> = \<bar>of_int m - y\<bar> * 2 powi s"
    by (simp add: xq abs_mult)
  also have "\<dots> \<le> 1 / 2 * 2 powi s"
    using near by (intro mult_right_mono) simp_all
  also have "\<dots> = 2 powi (s - 1)"
    by (simp add: power_int_diff [of "2::rat", simplified])
  finally have err: "\<bar>x - q\<bar> \<le> 2 powi (max (floor_log2 a b) (- 1022) - 53)"
    by (simp add: s_def)
  have "q < 2 powi (floor_log2 a b + 1)"
    using floor_log2_less [OF assms(1,2)] by (simp add: q_def)
  also have "(2::rat) powi (floor_log2 a b + 1) \<le> 2 powi (s + 53)"
    by (intro power_int_increasing) (simp_all add: s_def)
  finally have "q * 2 powi (- s) < 2 powi (s + 53) * 2 powi (- s)"
    by (simp add: mult_strict_right_mono)
  also have "(2 powi (s + 53) * 2 powi (- s) :: rat) = 2 powi 53"
    by (simp add: power_int_add power_int_minus)
  finally have ylt: "y < 2 ^ 53" by (simp add: y_def)
  from near have up: "of_int m - y \<le> 1 / 2" and lo: "- (1 / 2) \<le> of_int m - y"
    by (simp_all only: abs_le_iff) linarith+
  from up ylt have "(of_int m :: rat) < 2 ^ 53 + 1" by linarith
  then have "(of_int m :: rat) < of_int (2 ^ 53 + 1)" by simp
  then have "m < 2 ^ 53 + 1" by (simp only: of_int_less_iff)
  then have mle: "m \<le> 2 ^ 53" by simp
  from lo ypos have "(- 1 :: rat) < of_int m" by linarith
  then have "(of_int (- 1) :: rat) < of_int m" by simp
  then have "- 1 < m" by (simp only: of_int_less_iff)
  then have mge: "0 \<le> m" by simp
  have slo: "- 1074 \<le> s" by (simp add: s_def)
  from no_overflow have shi: "s \<le> 971" by simp
  have dbl: "is_double x"
  proof (cases "m = 2 ^ 53")
    case False
    with mle mge have "\<bar>m\<bar> < 2 ^ 53" by simp
    with slo shi x show ?thesis unfolding is_double_def by blast
  next
    case True
    with no_overflow shi have s1: "s + 1 \<le> 971" by simp
    have "x = of_int (2 ^ 52) * 2 powi (s + 1)"
      by (simp add: x True power_int_add)
    moreover have "\<bar>2 ^ 52 :: int\<bar> < 2 ^ 53" by simp
    moreover have "- 1074 \<le> s + 1" using slo by simp
    ultimately show ?thesis using s1 unfolding is_double_def by blast
  qed
  from dbl err show ?thesis by (simp add: q_def)
qed

lemma is_double_minus:
  assumes "is_double q"
  shows "is_double (- q)"
proof -
  from assms obtain m k where mk: "\<bar>m\<bar> < 2 ^ 53" "- 1074 \<le> k" "k \<le> 971"
    "q = of_int m * 2 powi k"
    by (auto simp: is_double_def)
  have "- q = of_int (- m) * 2 powi k" by (simp add: mk(4))
  moreover have "\<bar>- m\<bar> < 2 ^ 53" using mk(1) by simp
  ultimately show ?thesis using mk(2,3) unfolding is_double_def by blast
qed

lemma is_double_zero: "is_double 0"
  unfolding is_double_def by (intro exI [of _ 0]) simp

lemma py_truediv_near:
  assumes "b \<noteq> 0" and res: "py_truediv a b = Inr x"
  shows "is_double x
     \<and> \<bar>x - of_int a / of_int b\<bar> \<le> max (\<bar>of_int a / of_int b\<bar> / 2 ^ 53) (2 powi (- 1075))"
proof (cases "a = 0")
  case True
  with assms have "x = 0"
    by (auto simp: py_truediv_def nearest_double_def split: if_splits)
  then show ?thesis using True by (simp add: is_double_zero)
next
  case False
  define q :: rat where "q = of_int a / of_int b"
  define A where "A = nat \<bar>a\<bar>"
  define B where "B = nat \<bar>b\<bar>"
  have pos: "0 < A" "0 < B" using False assms(1) by (simp_all add: A_def B_def)
  have absq: "(of_nat A / of_nat B :: rat) = \<bar>q\<bar>" by (simp add: A_def B_def q_def)
  from res assms(1) obtain x0 where x0: "nearest_double A B = Inr x0"
    and x: "x = (if (a < 0) = (b < 0) then x0 else - x0)"
    by (auto simp: py_truediv_def A_def B_def split: sum.splits)
  from nearest_double_near [OF pos x0]
  have d0: "is_double x0"
    and e0: "\<bar>x0 - \<bar>q\<bar>\<bar> \<le> 2 powi (max (floor_log2 A B) (- 1022) - 53)"
    by (simp_all only: absq)
  have dbl: "is_double x" using d0 is_double_minus [OF d0] by (simp add: x)
  have sgn: "q = (if (a < 0) = (b < 0) then \<bar>q\<bar> else - \<bar>q\<bar>)"
    unfolding q_def using assms(1) False
    by (auto simp: abs_if divide_less_0_iff zero_less_divide_iff not_less le_less)
  have "\<bar>x - q\<bar> = \<bar>x0 - \<bar>q\<bar>\<bar>"
  proof (cases "(a < 0) = (b < 0)")
    case True
    with x sgn have "x = x0" "q = \<bar>q\<bar>" by simp_all
    then show ?thesis by simp
  next
    case False
    with x sgn have "x - q = - (x0 - \<bar>q\<bar>)" by simp
    then show ?thesis by (simp only: abs_minus_cancel)
  qed
  with e0 have err: "\<bar>x - q\<bar> \<le> 2 powi (max (floor_log2 A B) (- 1022) - 53)" by simp
  have "(2::rat) powi (max (floor_log2 A B) (- 1022) - 53) \<le> max (\<bar>q\<bar> / 2 ^ 53) (2 powi (- 1075))"
  proof (cases "- 1022 \<le> floor_log2 A B")
    case True
    then have "(2::rat) powi (max (floor_log2 A B) (- 1022) - 53)
        = 2 powi (floor_log2 A B) / 2 ^ 53"
      by (simp add: max_def power_int_diff [of "2::rat", simplified])
    also have "\<dots> \<le> \<bar>q\<bar> / 2 ^ 53"
      using floor_log2_le [OF pos] by (simp add: absq divide_right_mono)
    finally show ?thesis by simp
  next
    case False
    then have "(2::rat) powi (max (floor_log2 A B) (- 1022) - 53) = 2 powi (- 1075)"
      by (simp add: max_def)
    then show ?thesis by (simp only: max.cobounded2)
  qed
  with err have "\<bar>x - q\<bar> \<le> max (\<bar>q\<bar> / 2 ^ 53) (2 powi (- 1075))" by (rule order_trans)
  with dbl show ?thesis unfolding q_def by (rule conjI)
qed

text \<open>
  The range: a quotient below \<open>2^1023\<close> has a double, one of \<open>2^1024\<close> or more has
  none and the division raises OverflowError, as does the conversion of such an integer.
\<close>

lemma nearest_double_returns:
  assumes "0 < b" and "a < b * 2 ^ 1023"
  shows "\<exists>x. nearest_double a b = Inr x"
proof (cases "a = 0")
  case True
  then show ?thesis by (simp add: nearest_double_def)
next
  case False
  then have apos: "0 < a" by simp
  define s where "s = max (floor_log2 a b) (- 1022) - 52"
  define m where "m = (if 0 \<le> s then round_half_even_div (int a) (int b * 2 ^ nat s)
                 else round_half_even_div (int a * 2 ^ nat (- s)) (int b))"
  have nd: "nearest_double a b
      = (if 971 < s \<or> (s = 971 \<and> 2 ^ 53 \<le> m) then Inl OverflowError
         else Inr (scale2 (of_int m) s))"
    using apos by (simp add: nearest_double_def Let_def s_def [symmetric] m_def [symmetric])
  have bpos: "(0::rat) < of_nat b" using assms by simp
  from assms(2) have "(of_nat a :: rat) < of_nat (b * 2 ^ 1023)" by (simp only: of_nat_less_iff)
  then have "(of_nat a / of_nat b :: rat) < 2 ^ 1023" using bpos by (simp add: field_simps)
  with floor_log2_le [OF apos assms(1)] have lt: "(2::rat) powi (floor_log2 a b) < 2 powi 1023"
    by simp
  have "floor_log2 a b < 1023"
  proof (rule ccontr)
    assume "\<not> floor_log2 a b < 1023"
    then have "(2::rat) powi 1023 \<le> 2 powi (floor_log2 a b)"
      by (intro power_int_increasing) simp_all
    with lt show False by simp
  qed
  then have "s \<le> 970" by (simp add: s_def)
  then show ?thesis by (simp add: nd)
qed

lemma nearest_double_overflow:
  assumes "0 < b" and "b * 2 ^ 1024 \<le> a"
  shows "nearest_double a b = Inl OverflowError"
proof -
  from assms have apos: "0 < a" by (cases "a = 0") simp_all
  define s where "s = max (floor_log2 a b) (- 1022) - 52"
  define m where "m = (if 0 \<le> s then round_half_even_div (int a) (int b * 2 ^ nat s)
                 else round_half_even_div (int a * 2 ^ nat (- s)) (int b))"
  have nd: "nearest_double a b
      = (if 971 < s \<or> (s = 971 \<and> 2 ^ 53 \<le> m) then Inl OverflowError
         else Inr (scale2 (of_int m) s))"
    using apos by (simp add: nearest_double_def Let_def s_def [symmetric] m_def [symmetric])
  have bpos: "(0::rat) < of_nat b" using assms by simp
  from assms(2) have "(of_nat (b * 2 ^ 1024) :: rat) \<le> of_nat a" by (simp only: of_nat_le_iff)
  then have "(2 ^ 1024 :: rat) \<le> of_nat a / of_nat b" using bpos by (simp add: field_simps)
  with floor_log2_less [OF apos assms(1)] have lt: "(2::rat) powi 1024 < 2 powi (floor_log2 a b + 1)"
    by simp
  have "1024 < floor_log2 a b + 1"
  proof (rule ccontr)
    assume "\<not> 1024 < floor_log2 a b + 1"
    then have "(2::rat) powi (floor_log2 a b + 1) \<le> 2 powi 1024"
      by (intro power_int_increasing) simp_all
    with lt show False by simp
  qed
  then have "971 < s" by (simp add: s_def)
  then show ?thesis by (simp add: nd)
qed

lemma py_truediv_returns:
  assumes "b \<noteq> 0" and "\<bar>a\<bar> < \<bar>b\<bar> * 2 ^ 1023"
  shows "\<exists>x. py_truediv a b = Inr x"
proof -
  have "0 < nat \<bar>b\<bar>" using assms(1) by simp
  moreover have "nat \<bar>a\<bar> < nat \<bar>b\<bar> * 2 ^ 1023"
    using assms(2) by (simp add: nat_less_iff nat_mult_distrib)
  ultimately obtain x where "nearest_double (nat \<bar>a\<bar>) (nat \<bar>b\<bar>) = Inr x"
    using nearest_double_returns by blast
  then show ?thesis using assms(1) by (simp add: py_truediv_def)
qed

lemma py_truediv_overflow:
  assumes "b \<noteq> 0" and "\<bar>b\<bar> * 2 ^ 1024 \<le> \<bar>a\<bar>"
  shows "py_truediv a b = Inl OverflowError"
proof -
  have "0 < nat \<bar>b\<bar>" using assms(1) by simp
  moreover have "nat \<bar>b\<bar> * 2 ^ 1024 \<le> nat \<bar>a\<bar>"
    using assms(2) by (simp add: le_nat_iff nat_mult_distrib)
  ultimately have "nearest_double (nat \<bar>a\<bar>) (nat \<bar>b\<bar>) = Inl OverflowError"
    by (rule nearest_double_overflow)
  then show ?thesis using assms(1) by (simp add: py_truediv_def)
qed

lemma int_to_float_overflow:
  assumes "2 ^ 1024 \<le> \<bar>i\<bar>"
  shows "int_to_float i = Inl OverflowError"
proof -
  have "(1::nat) * 2 ^ 1024 \<le> nat \<bar>i\<bar>"
    using assms by (simp add: le_nat_iff)
  then have "nearest_double (nat \<bar>i\<bar>) 1 = Inl OverflowError"
    by (intro nearest_double_overflow) simp_all
  then show ?thesis by (simp add: int_to_float_def)
qed

text \<open>
  So a reading whose value is an integer beyond the doubles is refused by the formatter,
  and a pass that gets one raises.
\<close>

lemma py_format_f_overflow:
  assumes "2 ^ 1024 \<le> \<bar>i\<bar>" and "spec_precision decimals = Some p"
  shows "py_format_f (JInt i) decimals = Inl OverflowError"
  using assms by (simp add: int_to_float_overflow)

lemma format_opendtu_value_overflow:
  assumes "2 ^ 1024 \<le> \<bar>i\<bar>"
  shows "format_opendtu_value lib (JObj [(''v'', JInt i)]) = Inl OverflowError"
proof -
  from assms have "py_format_f (JInt i) (JInt 0) = Inl OverflowError"
    by (rule py_format_f_overflow) simp
  then show ?thesis
    by (simp add: format_opendtu_value_def dict_lookup_def)
qed

lemma pass_overflow:
  assumes "2 ^ 1024 \<le> \<bar>i\<bar>"
    and "telemetry_reply inp
     = Reply status (Some (JObj [(''total'', JObj [(''Power'', JObj [(''v'', JInt i)])])]))"
  shows "annotation_texts lib (telemetry_reply inp) = Inl OverflowError"
    and "\<not> pass_ok cfg lib inp"
  using format_opendtu_value_overflow [OF assms(1), of lib]
  by (simp_all add: assms(2) pass_ok_def annotation_texts_def response_json_def total_field_def
      dict_lookup_def)

text \<open>At the interval 7 the quotient is no double, and the division returns its neighbour.\<close>

lemma py_truediv_3600_7: "py_truediv 3600 7 = Inr (4523704982849829 / 8796093022208)"
  by (simp add: float_eval)

section \<open>Formatting a reading\<close>

text \<open>
  C5. \<open>format_opendtu_value\<close> turns the reading \<open>{v: 123.4, u: "W", d: 2}\<close> into
  \<open>"123.40 W"\<close>: the value with the declared number of decimals, a space, the unit.
  This holds for the decimal 123.4 and for the float nearest to it, which is what the
  JSON decoder hands over. An absent or empty reading, and every other value that
  counts as false, gives \<open>"N/A"\<close>.
\<close>

theorem format_reading_examples:
  "format_opendtu_value lib (JObj [(''v'', JFloat (1234 / 10)), (''u'', JStr ''W''), (''d'', JInt 2)])
     = Inr ''123.40 W''
   \<and> format_opendtu_value lib
       (JObj [(''v'', JFloat (8683503031523738 / 2 ^ 46)), (''u'', JStr ''W''), (''d'', JInt 2)])
     = Inr ''123.40 W''
   \<and> format_opendtu_value lib (JObj []) = Inr ''N/A''
   \<and> format_opendtu_value lib JNull = Inr ''N/A''
   \<and> (\<forall>field. \<not> truthy field \<longrightarrow> format_opendtu_value lib field = Inr ''N/A'')"
  by (simp add: format_opendtu_value_def dict_lookup_def format_eval)

theorem format_reading_examples_witness:
  "\<not> truthy (JObj []) \<and> format_opendtu_value example_platform (JObj []) = Inr ''N/A''
   \<and> format_opendtu_value example_platform
         (JObj [(''v'', JFloat (1234 / 10)), (''u'', JStr ''W''), (''d'', JInt 2)]) = Inr ''123.40 W''"
  using format_reading_examples [of example_platform] by simp

text \<open>
  C6, as the code has it. A reading that is not empty is formatted from the value, unit
  and precision of the payload where the payload has them, and from the formatter's own
  defaults where it does not: value 0, unit \<open>""\<close>, precision 0. No other field of the
  reading matters, and the result is never \<open>"N/A"\<close>.
\<close>

theorem format_reading_defaults:
  assumes "kvs \<noteq> []"
  shows "format_opendtu_value lib (JObj kvs) = format_opendtu_value lib (reading_with_defaults kvs)
         \<and> format_opendtu_value lib (JObj kvs) \<noteq> Inr ''N/A''"
proof -
  have a: "format_opendtu_value lib (JObj kvs) = format_opendtu_value lib (reading_with_defaults kvs)"
    using assms
    by (simp add: format_opendtu_value_def reading_with_defaults_def dict_lookup_def
        split: option.splits)
  have "format_opendtu_value lib (JObj kvs) = Inr s \<Longrightarrow> CHR '' '' \<in> set s" for s
    using assms by (auto simp: format_opendtu_value_def split: sum.splits option.splits)
  then have "format_opendtu_value lib (JObj kvs) \<noteq> Inr ''N/A''"
    by fastforce
  with a show ?thesis by simp
qed

theorem format_reading_defaults_witness:
  "[(''u'', JStr ''W'')] \<noteq> []
   \<and> format_opendtu_value example_platform (JObj [(''u'', JStr ''W'')])
       = format_opendtu_value example_platform
           (JObj [(''v'', JInt 0), (''u'', JStr ''W''), (''d'', JInt 0)])"
  using format_reading_defaults [of "[(''u'', JStr ''W'')]" example_platform]
  by (simp add: reading_with_defaults_def dict_lookup_def)

text \<open>
  C6, as the specification words it, fails: the reading \<open>{u: "W"}\<close> is not empty and
  carries neither a value nor a precision, and it is formatted as \<open>"0 W"\<close>, from the
  defaults 0 and 0.
\<close>

theorem format_reading_local_defaults_counterexample:
  "truthy (JObj [(''u'', JStr ''W'')])
   \<and> dict_lookup [(''u'', JStr ''W'')] ''v'' = None
   \<and> dict_lookup [(''u'', JStr ''W'')] ''d'' = None
   \<and> format_opendtu_value example_platform (JObj [(''u'', JStr ''W'')]) = Inr ''0 W''"
  by (simp add: format_opendtu_value_def dict_lookup_def format_eval)

section \<open>The capacity estimate\<close>

lemmas io_defs = and_then_def pure_step_def print_def emit_def

text \<open>What the estimator does when the sample frame arrives and the disk takes it.\<close>

lemma estimate_size_per_hour_ok:
  "estimate_size_per_hour cfg lib (Reply status (Some img)) now DiskOk w =
     (py_truediv (int (length (jpeg_encode lib img)) * 3600) (TIMEOUT cfg),
      w\<lparr>files := (files w)(''test.jpg'' := None),
        trace := trace w @ [HttpGet (CAMERA_SNAPSHOT_URL cfg), FileWrite ''test.jpg'',
                            FileRemove ''test.jpg'']\<rparr>)"
  by (simp add: estimate_size_per_hour_def get_image_def pil_save_def getsize_def
      remove_file_def io_defs)

text \<open>
  C1. With a sample frame whose encoding has \<open>S\<close> bytes and an interval \<open>I > 0\<close>, the
  estimator returns what Python's division gives for \<open>S * 3600 / I\<close>, and the frame
  rate what it gives for \<open>3600 / I\<close>: the doubles nearest to the quotients. Wherever a
  quotient is a double the value is the quotient exactly; that is so at the program's
  interval 2 for every size below \<open>2^53 / 1800\<close> bytes. At \<open>S = 50000\<close> and the
  interval 2 the values are 90,000,000 and 1800. For every size below \<open>2^1023 / 3600\<close>
  bytes both values are returned, are doubles, and differ from the quotients by at most
  the \<open>2^53\<close>-th part of the quotient (or \<open>2^-1075\<close>, for a quotient that small).
\<close>

theorem capacity_estimate:
  assumes "0 < TIMEOUT cfg" and "length (jpeg_encode lib img) = S"
  shows "fst (estimate_size_per_hour cfg lib (Reply status (Some img)) now DiskOk w)
           = py_truediv (int S * 3600) (TIMEOUT cfg)
         \<and> estimate_frames_per_hour cfg = py_truediv 3600 (TIMEOUT cfg)
         \<and> (is_double (of_nat S * 3600 / of_int (TIMEOUT cfg)) \<longrightarrow>
              fst (estimate_size_per_hour cfg lib (Reply status (Some img)) now DiskOk w)
                = Inr (of_nat S * 3600 / of_int (TIMEOUT cfg)))
         \<and> (is_double (3600 / of_int (TIMEOUT cfg)) \<longrightarrow>
              estimate_frames_per_hour cfg = Inr (3600 / of_int (TIMEOUT cfg)))
         \<and> (TIMEOUT cfg = 2 \<and> S * 1800 < 2 ^ 53 \<longrightarrow>
              fst (estimate_size_per_hour cfg lib (Reply status (Some img)) now DiskOk w)
                = Inr (of_nat S * 3600 / 2)
              \<and> estimate_frames_per_hour cfg = Inr (3600 / 2))
         \<and> (S * 3600 < 2 ^ 1023 \<longrightarrow>
              (\<exists>x y. fst (estimate_size_per_hour cfg lib (Reply status (Some img)) now DiskOk w)
                       = Inr x
                 \<and> estimate_frames_per_hour cfg = Inr y
                 \<and> is_double x \<and> is_double y
                 \<and> \<bar>x - of_nat S * 3600 / of_int (TIMEOUT cfg)\<bar>
                      \<le> max (of_nat S * 3600 / of_int (TIMEOUT cfg) / 2 ^ 53) (2 powi (- 1075))
                 \<and> \<bar>y - 3600 / of_int (TIMEOUT cfg)\<bar>
                      \<le> max (3600 / of_int (TIMEOUT cfg) / 2 ^ 53) (2 powi (- 1075))))"
proof -
  from assms(1) have nz: "TIMEOUT cfg \<noteq> 0" by simp
  have tpos: "(0::rat) < of_int (TIMEOUT cfg)" using assms(1) by simp
  have near: "\<exists>x y. py_truediv (int S * 3600) (TIMEOUT cfg) = Inr x
       \<and> py_truediv 3600 (TIMEOUT cfg) = Inr y
       \<and> is_double x \<and> is_double y
       \<and> \<bar>x - of_nat S * 3600 / of_int (TIMEOUT cfg)\<bar>
            \<le> max (of_nat S * 3600 / of_int (TIMEOUT cfg) / 2 ^ 53) (2 powi (- 1075))
       \<and> \<bar>y - 3600 / of_int (TIMEOUT cfg)\<bar>
            \<le> max (3600 / of_int (TIMEOUT cfg) / 2 ^ 53) (2 powi (- 1075))"
    if small: "S * 3600 < 2 ^ 1023"
  proof -
    from small have "int (S * 3600) < int (2 ^ 1023)" by (simp only: of_nat_less_iff)
    then have s1: "\<bar>int S * 3600\<bar> < \<bar>TIMEOUT cfg\<bar> * 2 ^ 1023"
      using assms(1) by simp
    have s2: "\<bar>3600 :: int\<bar> < \<bar>TIMEOUT cfg\<bar> * 2 ^ 1023"
      using assms(1) by simp
    from py_truediv_returns [OF nz s1] obtain x
      where x: "py_truediv (int S * 3600) (TIMEOUT cfg) = Inr x" by blast
    from py_truediv_returns [OF nz s2] obtain y
      where y: "py_truediv 3600 (TIMEOUT cfg) = Inr y" by blast
    have a1: "\<bar>of_nat S * 3600 / of_int (TIMEOUT cfg) :: rat\<bar>
        = of_nat S * 3600 / of_int (TIMEOUT cfg)"
      using tpos by simp
    have a2: "\<bar>3600 / of_int (TIMEOUT cfg) :: rat\<bar> = 3600 / of_int (TIMEOUT cfg)"
      using tpos by simp
    have q1: "(of_int (int S * 3600) / of_int (TIMEOUT cfg) :: rat)
        = of_nat S * 3600 / of_int (TIMEOUT cfg)" by simp
    have q2: "(of_int 3600 / of_int (TIMEOUT cfg) :: rat) = 3600 / of_int (TIMEOUT cfg)" by simp
    from py_truediv_near [OF nz x] have "is_double x"
      "\<bar>x - of_nat S * 3600 / of_int (TIMEOUT cfg)\<bar>
         \<le> max (of_nat S * 3600 / of_int (TIMEOUT cfg) / 2 ^ 53) (2 powi (- 1075))"
      by (simp_all only: q1 a1)
    moreover from py_truediv_near [OF nz y] have "is_double y"
      "\<bar>y - 3600 / of_int (TIMEOUT cfg)\<bar>
         \<le> max (3600 / of_int (TIMEOUT cfg) / 2 ^ 53) (2 powi (- 1075))"
      by (simp_all only: q2 a2)
    ultimately show ?thesis using x y by blast
  qed
  have size: "fst (estimate_size_per_hour cfg lib (Reply status (Some img)) now DiskOk w)
           = py_truediv (int S * 3600) (TIMEOUT cfg)"
    by (simp add: estimate_size_per_hour_ok assms(2))
  have frames: "estimate_frames_per_hour cfg = py_truediv 3600 (TIMEOUT cfg)"
    by (simp add: estimate_frames_per_hour_def)
  have size_exact: "py_truediv (int S * 3600) (TIMEOUT cfg)
      = Inr (of_nat S * 3600 / of_int (TIMEOUT cfg))"
    if "is_double (of_nat S * 3600 / of_int (TIMEOUT cfg))"
    using py_truediv_exact [of "TIMEOUT cfg" "int S * 3600"] nz that by simp
  have frames_exact: "py_truediv 3600 (TIMEOUT cfg) = Inr (3600 / of_int (TIMEOUT cfg))"
    if "is_double (3600 / of_int (TIMEOUT cfg))"
    using py_truediv_exact [of "TIMEOUT cfg" 3600] nz that by simp
  have at_two: "py_truediv (int S * 3600) (TIMEOUT cfg) = Inr (of_nat S * 3600 / 2)
      \<and> py_truediv 3600 (TIMEOUT cfg) = Inr (3600 / 2)"
    if two: "TIMEOUT cfg = 2" and small: "S * 1800 < 2 ^ 53"
  proof -
    have q1: "(of_nat S * 3600 / of_int (TIMEOUT cfg) :: rat) = of_nat (S * 1800)"
      and q2: "(3600 / of_int (TIMEOUT cfg) :: rat) = of_nat 1800"
      by (simp_all add: two)
    have "is_double (of_nat (S * 1800))" using small by (rule is_double_of_nat)
    then have d1: "is_double (of_nat S * 3600 / of_int (TIMEOUT cfg))" by (simp only: q1)
    have "is_double (of_nat 1800)" by (rule is_double_of_nat) simp
    then have d2: "is_double (3600 / of_int (TIMEOUT cfg))" by (simp only: q2)
    from size_exact [OF d1] frames_exact [OF d2] show ?thesis by (simp add: two)
  qed
  from near have near': "S * 3600 < 2 ^ 1023 \<longrightarrow>
      (\<exists>x y. fst (estimate_size_per_hour cfg lib (Reply status (Some img)) now DiskOk w) = Inr x
         \<and> estimate_frames_per_hour cfg = Inr y
         \<and> is_double x \<and> is_double y
         \<and> \<bar>x - of_nat S * 3600 / of_int (TIMEOUT cfg)\<bar>
              \<le> max (of_nat S * 3600 / of_int (TIMEOUT cfg) / 2 ^ 53) (2 powi (- 1075))
         \<and> \<bar>y - 3600 / of_int (TIMEOUT cfg)\<bar>
              \<le> max (3600 / of_int (TIMEOUT cfg) / 2 ^ 53) (2 powi (- 1075)))"
    by (simp only: size frames) blast
  have exact: "(is_double (of_nat S * 3600 / of_int (TIMEOUT cfg)) \<longrightarrow>
              fst (estimate_size_per_hour cfg lib (Reply status (Some img)) now DiskOk w)
                = Inr (of_nat S * 3600 / of_int (TIMEOUT cfg)))
         \<and> (is_double (3600 / of_int (TIMEOUT cfg)) \<longrightarrow>
              estimate_frames_per_hour cfg = Inr (3600 / of_int (TIMEOUT cfg)))
         \<and> (TIMEOUT cfg = 2 \<and> S * 1800 < 2 ^ 53 \<longrightarrow>
              fst (estimate_size_per_hour cfg lib (Reply status (Some img)) now DiskOk w)
                = Inr (of_nat S * 3600 / 2)
              \<and> estimate_frames_per_hour cfg = Inr (3600 / 2))"
    using size frames size_exact frames_exact at_two by simp
  from size frames exact near' show ?thesis by (intro conjI) blast+
qed

theorem capacity_estimate_witness:
  "0 < TIMEOUT the_config
   \<and> length (jpeg_encode (example_platform\<lparr>jpeg_encode := (\<lambda>img. replicate 50000 0)\<rparr>)
        example_image) = 50000
   \<and> TIMEOUT the_config = 2 \<and> (50000::nat) * 1800 < 2 ^ 53
   \<and> (50000::nat) * 3600 < 2 ^ 1023
   \<and> is_double (of_nat 50000 * 3600 / of_int (TIMEOUT the_config))
   \<and> fst (estimate_size_per_hour the_config
            (example_platform\<lparr>jpeg_encode := (\<lambda>img. replicate 50000 0)\<rparr>)
            (Reply 200 (Some example_image)) example_time DiskOk empty_world) = Inr 90000000
   \<and> estimate_frames_per_hour the_config = Inr 1800"
proof -
  have h: "0 < TIMEOUT the_config"
    "length (jpeg_encode (example_platform\<lparr>jpeg_encode := (\<lambda>img. replicate 50000 0)\<rparr>)
        example_image) = 50000"
    "TIMEOUT the_config = 2" "(50000::nat) * 1800 < 2 ^ 53"
    "(50000::nat) * 3600 < 2 ^ 1023"
    by (simp_all add: the_config_def)
  have "is_double (of_nat (50000 * 1800))" by (rule is_double_of_nat) simp
  then have d: "is_double (of_nat 50000 * 3600 / of_int (TIMEOUT the_config))"
    by (simp add: h(3))
  from capacity_estimate [OF h(1,2), of 200 example_time empty_world] h(3,4)
  have "fst (estimate_size_per_hour the_config
            (example_platform\<lparr>jpeg_encode := (\<lambda>img. replicate 50000 0)\<rparr>)
            (Reply 200 (Some example_image)) example_time DiskOk empty_world)
          = Inr (of_nat 50000 * 3600 / 2)
      \<and> estimate_frames_per_hour the_config = Inr (3600 / 2)"
    by blast
  with h d show ?thesis by simp
qed

text \<open>
  C9. The estimator writes the sample to \<^verbatim>\<open>test.jpg\<close> in the working directory and
  removes it again: afterwards that path holds no file, whatever it held before; every
  other path, and so every path \<open>SAVE_DIR/name\<close> of the output directory, holds what it
  held; the events are the request, the write and the removal, in this order; and the
  estimator comes to its division, and returns its value, once the file is gone.
\<close>

theorem estimator_temporary_file:
  "files (snd (estimate_size_per_hour cfg lib (Reply status (Some img)) now DiskOk w)) ''test.jpg''
     = None
   \<and> (\<forall>path. path \<noteq> ''test.jpg'' \<longrightarrow>
         files (snd (estimate_size_per_hour cfg lib (Reply status (Some img)) now DiskOk w)) path
           = files w path)
   \<and> (\<forall>name.
         files (snd (estimate_size_per_hour cfg lib (Reply status (Some img)) now DiskOk w))
           (SAVE_DIR cfg @ ''/'' @ name) = files w (SAVE_DIR cfg @ ''/'' @ name))
   \<and> trace (snd (estimate_size_per_hour cfg lib (Reply status (Some img)) now DiskOk w))
       = trace w @ [HttpGet (CAMERA_SNAPSHOT_URL cfg), FileWrite ''test.jpg'',
                    FileRemove ''test.jpg'']
   \<and> fst (estimate_size_per_hour cfg lib (Reply status (Some img)) now DiskOk w)
       = py_truediv (int (length (jpeg_encode lib img)) * 3600) (TIMEOUT cfg)
   \<and> (TIMEOUT cfg \<noteq> 0
        \<and> is_double (of_nat (length (jpeg_encode lib img)) * 3600 / of_int (TIMEOUT cfg)) \<longrightarrow>
         fst (estimate_size_per_hour cfg lib (Reply status (Some img)) now DiskOk w)
           = Inr (of_nat (length (jpeg_encode lib img)) * 3600 / of_int (TIMEOUT cfg)))"
proof -
  have "py_truediv (int (length (jpeg_encode lib img)) * 3600) (TIMEOUT cfg)
      = Inr (of_nat (length (jpeg_encode lib img)) * 3600 / of_int (TIMEOUT cfg))"
    if "TIMEOUT cfg \<noteq> 0"
      and "is_double (of_nat (length (jpeg_encode lib img)) * 3600 / of_int (TIMEOUT cfg))"
    using py_truediv_exact [of "TIMEOUT cfg" "int (length (jpeg_encode lib img)) * 3600"] that
    by simp
  moreover
  have "SAVE_DIR cfg @ ''/'' @ name \<noteq> ''test.jpg''" for name
  proof
    assume "SAVE_DIR cfg @ ''/'' @ name = ''test.jpg''"
    then have "CHR ''/'' \<in> set ''test.jpg''"
      by (metis in_set_conv_decomp append_Cons append_Nil)
    then show False by simp
  qed
  ultimately show ?thesis
    by (simp add: estimate_size_per_hour_ok)
qed

theorem estimator_temporary_file_witness:
  "files example_world ''test.jpg'' = Some [7, 7]
   \<and> files (snd (estimate_size_per_hour the_config example_platform
                   (Reply 200 (Some example_image)) example_time DiskOk example_world))
        ''test.jpg'' = None
   \<and> ''images/image_20240309_070558.jpg'' \<noteq> ''test.jpg''
   \<and> files (snd (estimate_size_per_hour the_config example_platform
                   (Reply 200 (Some example_image)) example_time DiskOk example_world))
        ''images/image_20240309_070558.jpg'' = Some [9]
   \<and> TIMEOUT the_config \<noteq> 0
   \<and> fst (estimate_size_per_hour the_config example_platform (Reply 200 (Some example_image))
            example_time DiskOk example_world) = Inr 5400"
  using estimator_temporary_file
    [of the_config example_platform 200 example_image example_time example_world]
  by (simp add: example_world_def the_config_def example_platform_def example_image_def
      float_eval)

section \<open>The validation gate\<close>

lemma snapshot_entryD:
  assumes "snapshot_entry status = Some s"
  obtains items outs where "status = JObj items"
    and "dict_lookup items ''outputs'' = Some (JObj outs)"
    and "dict_lookup outs ''snapshot'' = Some s"
  using assms by (auto simp: snapshot_entry_def split: json.splits option.splits)

lemma snapshot_entry_NoneD:
  assumes "outputs_well_formed status" and "snapshot_entry status = None"
  obtains items where "status = JObj items" and "dict_lookup items ''outputs'' = None"
  | items outs where "status = JObj items"
    and "dict_lookup items ''outputs'' = Some (JObj outs)"
    and "dict_lookup outs ''snapshot'' = None"
  using assms
  by (auto simp: snapshot_entry_def outputs_well_formed_def is_object_def
      split: json.splits option.splits)

lemma positiveD:
  assumes "positive x"
  obtains j where "x = Some j" and "\<not> py_eq_zero j"
  using assms by (auto simp: positive_def split: option.splits json.splits)

lemma zero_or_absentD:
  assumes "zero_or_absent x"
  shows "x = None \<or> (\<exists>j. x = Some j \<and> py_eq_zero j)"
  using assms by (auto simp: zero_or_absent_def split: option.splits json.splits)

lemma dict_lookup_Nil: "dict_lookup [] k = None"
  by (simp add: dict_lookup_def)

lemma main_validating_enabled:
  assumes "snapshot_entry status = Some (JObj snap)"
    and "positive (dict_lookup snap ''height'')" and "positive (dict_lookup snap ''width'')"
  shows "main_validating lib status w =
     (Inr (), emit (Print (''Snapshot resolution: ''
        @ py_str lib (the (dict_lookup snap ''width'')) @ ''x''
        @ py_str lib (the (dict_lookup snap ''height'')))) w)"
proof -
  from assms(1) obtain items outs where s: "status = JObj items"
    "dict_lookup items ''outputs'' = Some (JObj outs)"
    "dict_lookup outs ''snapshot'' = Some (JObj snap)"
    by (rule snapshot_entryD)
  from assms(2) obtain h where h: "dict_lookup snap ''height'' = Some h" "\<not> py_eq_zero h"
    by (rule positiveD)
  from assms(3) obtain wd where wd: "dict_lookup snap ''width'' = Some wd" "\<not> py_eq_zero wd"
    by (rule positiveD)
  from h(1) have "snap \<noteq> []" by (auto simp: dict_lookup_Nil)
  then show ?thesis
    by (simp add: main_validating_def io_defs s h wd)
qed

lemma main_validating_disabled:
  assumes "outputs_well_formed status"
    and "snapshot_entry status = None \<or> (\<exists>s. snapshot_entry status = Some s \<and> \<not> truthy s)"
  shows "main_validating lib status w = (Inl (RuntimeError ''Snapshot output is not enabled''), w)"
  using assms(2)
proof
  assume "snapshot_entry status = None"
  with assms(1) show ?thesis
    by (rule snapshot_entry_NoneD) (simp_all add: main_validating_def io_defs dict_lookup_Nil)
next
  assume "\<exists>s. snapshot_entry status = Some s \<and> \<not> truthy s"
  then obtain s where s: "snapshot_entry status = Some s" "\<not> truthy s" by blast
  from s(1) obtain items outs where "status = JObj items"
    "dict_lookup items ''outputs'' = Some (JObj outs)" "dict_lookup outs ''snapshot'' = Some s"
    by (rule snapshot_entryD)
  with s(2) show ?thesis
    by (simp add: main_validating_def io_defs)
qed

lemma main_validating_zero:
  assumes "snapshot_entry status = Some (JObj snap)"
    and "zero_or_absent (dict_lookup snap ''height'') \<or> zero_or_absent (dict_lookup snap ''width'')"
  shows "capability_invalid (fst (main_validating lib status w))
         \<and> snd (main_validating lib status w) = w"
proof -
  from assms(1) obtain items outs where s: "status = JObj items"
    "dict_lookup items ''outputs'' = Some (JObj outs)"
    "dict_lookup outs ''snapshot'' = Some (JObj snap)"
    by (rule snapshot_entryD)
  from assms(2) have z:
    "(case dict_lookup snap ''height'' of None \<Rightarrow> True | Some j \<Rightarrow> py_eq_zero j)
      \<or> (case dict_lookup snap ''width'' of None \<Rightarrow> True | Some j \<Rightarrow> py_eq_zero j)"
    by (auto dest!: zero_or_absentD)
  show ?thesis
  proof (cases "snap = []")
    case True
    then show ?thesis
      by (simp add: main_validating_def io_defs s capability_invalid_def)
  next
    case False
    with z show ?thesis
      by (auto simp: main_validating_def io_defs s capability_invalid_def split: option.splits)
  qed
qed

text \<open>An exception of the validation leaves \<^verbatim>\<open>main\<close> after the one status request.\<close>

lemma main_validation_fails:
  assumes "status_reply start = Reply code (Some status)"
    and "main_validating lib status (emit (HttpGet (CAMERA_STATUS_URL cfg)) w) = (Inl e, w')"
  shows "main cfg lib start inps w = (Some e, w')"
  using assms by (simp add: main_def get_camera_status_def response_json_def and_then_def)

text \<open>
  C2. For a status document of the expected shape (an object whose \<^verbatim>\<open>outputs\<close>, when
  present, is an object): when \<^verbatim>\<open>outputs.snapshot\<close> is an object with a height above
  zero and a width above zero, the validation succeeds; when it is missing or counts as
  false, or is an object whose height or width is zero or missing, the validation raises
  one of its two RuntimeErrors, prints nothing, and \<^verbatim>\<open>main\<close> ends with that error after
  the single status request: no estimate, no capture, exit status 1.
\<close>

theorem validation_gate:
  assumes "outputs_well_formed status" and "status_reply start = Reply code (Some status)"
  shows "(\<forall>snap. snapshot_entry status = Some (JObj snap)
            \<and> positive (dict_lookup snap ''height'') \<and> positive (dict_lookup snap ''width'')
          \<longrightarrow> fst (main_validating lib status w) = Inr ())
       \<and> (snapshot_entry status = None
            \<or> (\<exists>s. snapshot_entry status = Some s \<and> \<not> truthy s)
            \<or> (\<exists>snap. snapshot_entry status = Some (JObj snap)
                  \<and> (zero_or_absent (dict_lookup snap ''height'')
                       \<or> zero_or_absent (dict_lookup snap ''width'')))
          \<longrightarrow> capability_invalid (fst (main_validating lib status w))
              \<and> snd (main_validating lib status w) = w
              \<and> (\<exists>e. capability_invalid (Inl e)
                    \<and> main cfg lib start inps w = (Some e, emit (HttpGet (CAMERA_STATUS_URL cfg)) w)
                    \<and> exit_status (Some e) = Some 1))"
proof -
  have good: "\<forall>snap. snapshot_entry status = Some (JObj snap)
            \<and> positive (dict_lookup snap ''height'') \<and> positive (dict_lookup snap ''width'')
          \<longrightarrow> fst (main_validating lib status w) = Inr ()"
    by (simp add: main_validating_enabled)
  have rejected: "capability_invalid (fst (main_validating lib status w))
              \<and> snd (main_validating lib status w) = w
              \<and> (\<exists>e. capability_invalid (Inl e)
                    \<and> main cfg lib start inps w = (Some e, emit (HttpGet (CAMERA_STATUS_URL cfg)) w)
                    \<and> exit_status (Some e) = Some 1)"
    if bad: "snapshot_entry status = None
            \<or> (\<exists>s. snapshot_entry status = Some s \<and> \<not> truthy s)
            \<or> (\<exists>snap. snapshot_entry status = Some (JObj snap)
                  \<and> (zero_or_absent (dict_lookup snap ''height'')
                       \<or> zero_or_absent (dict_lookup snap ''width'')))"
  proof -
    have inv: "capability_invalid (fst (main_validating lib status v))
        \<and> snd (main_validating lib status v) = v" for v
    proof -
      from bad consider (absent) "snapshot_entry status = None"
        | (falsy) s where "snapshot_entry status = Some s" and "\<not> truthy s"
        | (zero) snap where "snapshot_entry status = Some (JObj snap)"
            and "zero_or_absent (dict_lookup snap ''height'')
                 \<or> zero_or_absent (dict_lookup snap ''width'')"
        by auto
      then show ?thesis
      proof cases
        case absent
        with assms(1) show ?thesis
          by (simp add: main_validating_disabled capability_invalid_def)
      next
        case falsy
        with assms(1) have "main_validating lib status v
            = (Inl (RuntimeError ''Snapshot output is not enabled''), v)"
          by (intro main_validating_disabled) auto
        then show ?thesis by (simp add: capability_invalid_def)
      next
        case zero
        then show ?thesis by (rule main_validating_zero)
      qed
    qed
    let ?v = "emit (HttpGet (CAMERA_STATUS_URL cfg)) w"
    from inv [of ?v] obtain e where e: "main_validating lib status ?v = (Inl e, ?v)"
      "capability_invalid (Inl e)"
      by (cases "main_validating lib status ?v") (auto simp: capability_invalid_def)
    from assms(2) e(1) have "main cfg lib start inps w = (Some e, ?v)"
      by (rule main_validation_fails)
    with e(2) inv [of w] show ?thesis
      by (auto simp: exit_status_def)
  qed
  from good rejected show ?thesis by blast
qed

lemmas status_eval = outputs_well_formed_def snapshot_entry_def status_document_def dict_lookup_def
  is_object_def positive_def zero_or_absent_def

theorem validation_gate_witness:
  "outputs_well_formed (status_document (JObj [(''height'', JInt 480), (''width'', JInt 640)]))
   \<and> status_reply example_startup
       = Reply 200 (Some (status_document (JObj [(''height'', JInt 480), (''width'', JInt 640)])))
   \<and> fst (main_validating example_platform
            (status_document (JObj [(''height'', JInt 480), (''width'', JInt 640)])) empty_world) = Inr ()
   \<and> outputs_well_formed (status_document (JObj [(''height'', JInt 0), (''width'', JInt 640)]))
   \<and> zero_or_absent (dict_lookup [(''height'', JInt 0), (''width'', JInt 640)] ''height'')
   \<and> capability_invalid (fst (main_validating example_platform
            (status_document (JObj [(''height'', JInt 0), (''width'', JInt 640)])) empty_world))"
  using validation_gate [of "status_document (JObj [(''height'', JInt 480), (''width'', JInt 640)])"
      example_startup 200 example_platform empty_world the_config "[]"]
    validation_gate [of "status_document (JObj [(''height'', JInt 0), (''width'', JInt 640)])"
      "example_startup\<lparr>status_reply := Reply 200 (Some (status_document (JObj [(''height'', JInt 0), (''width'', JInt 640)])))\<rparr>"
      200 example_platform empty_world the_config "[]"]
  by (simp add: status_eval example_startup_def)

section \<open>One pass of the loop\<close>

text \<open>
  \<^verbatim>\<open>embed_text\<close> either dies before it draws, with the telemetry request as its only
  event, or draws all three texts.
\<close>

lemma embed_text_fails:
  assumes "annotation_texts lib reply = Inl e"
  shows "embed_text cfg lib img now zone reply w = (Inl e, emit (HttpGet (OPENDTU_STATUS_URL cfg)) w)"
  using assms
  by (auto simp: embed_text_def annotation_texts_def get_opendtu_data_def and_then_def pure_step_def
      split: sum.split_asm)

lemma embed_text_succeeds:
  assumes "annotation_texts lib reply = Inr (p, y)"
  shows "embed_text cfg lib img now zone reply w =
    (Inr (img\<lparr>texts := texts img @ [((10, 10), strftime (TIME_FORMAT cfg) now zone), ((10, 40), p), ((10, 70), y)]\<rparr>),
     w\<lparr>trace := trace w @ [HttpGet (OPENDTU_STATUS_URL cfg),
        DrawText (10, 10) (strftime (TIME_FORMAT cfg) now zone), DrawText (10, 40) p, DrawText (10, 70) y]\<rparr>)"
  using assms
  by (auto simp: embed_text_def annotation_texts_def get_opendtu_data_def and_then_def pure_step_def
      draw_text_def emit_def Let_def split: sum.split_asm)

lemma frame_arrivesD:
  assumes "frame_arrives reply"
  obtains status img where "reply = Reply status (Some img)"
  using assms by (auto simp: frame_arrives_def split: http_reply.splits option.splits)

lemma save_image_ok:
  "save_image cfg lib img now DiskOk w =
     (Inr (), w\<lparr>files := (files w)(image_filename cfg now \<mapsto> jpeg_encode lib img),
               trace := trace w @ [FileWrite (image_filename cfg now),
                                   Print (''Image saved to '' @ image_filename cfg now)]\<rparr>)"
  by (simp add: save_image_def pil_save_def and_then_def print_def emit_def Let_def)


lemma get_image_arrives:
  "get_image cfg (Reply status (Some img)) now w
     = (Inr (img, now), w\<lparr>trace := trace w @ [HttpGet (CAMERA_SNAPSHOT_URL cfg)]\<rparr>)"
  by (simp add: get_image_def emit_def)


lemma loop_body_ok:
  assumes "pass_ok cfg lib inp" and "snapshot_reply inp = Reply status (Some img)"
  shows "loop_body cfg lib inp w =
     (Inr (), w\<lparr>files := (files w)(image_filename cfg (captured_at inp)
                      \<mapsto> jpeg_encode lib (annotated cfg lib inp img)),
               trace := trace w @ pass_events cfg lib inp\<rparr>)"
proof -
  from assms(1) obtain p y where t: "annotation_texts lib (telemetry_reply inp) = Inr (p, y)"
    by (cases "annotation_texts lib (telemetry_reply inp)") (auto simp: pass_ok_def)
  from assms(1) have d: "disk_state inp = DiskOk" and s: "\<not> TIMEOUT cfg < 0"
    by (auto simp: pass_ok_def)
  show ?thesis
    by (simp add: loop_body_def assms(2) get_image_arrives and_then_def emit_def
        embed_text_succeeds [OF t] save_image_ok d sleep_def s
        pass_events_def fetch_events_def annotate_events_def persist_events_def annotated_def t)
qed


section \<open>The running loop\<close>

lemma capture_loop_all_ok:
  assumes "\<forall>inp \<in> set inps. pass_ok cfg lib inp"
  shows "fst (capture_loop cfg lib inps w) = None
     \<and> trace (snd (capture_loop cfg lib inps w)) = trace w @ concat (map (pass_events cfg lib) inps)"
  using assms
proof (induction inps arbitrary: w)
  case Nil
  then show ?case by simp
next
  case (Cons inp inps)
  then have ok: "pass_ok cfg lib inp" by simp
  then obtain status img where r: "snapshot_reply inp = Reply status (Some img)"
    by (auto simp: pass_ok_def elim: frame_arrivesD)
  from Cons have "\<forall>inp \<in> set inps. pass_ok cfg lib inp" by simp
  from Cons.IH [OF this] show ?case
    by (simp add: loop_body_ok [OF ok r])
qed

lemma pass_events_shape:
  assumes "pass_ok cfg lib inp"
  shows "\<exists>p y. pass_events cfg lib inp =
     [HttpGet (CAMERA_SNAPSHOT_URL cfg), HttpGet (OPENDTU_STATUS_URL cfg),
      DrawText (10, 10) (strftime (TIME_FORMAT cfg) (captured_at inp) (zone_name inp)),
      DrawText (10, 40) p, DrawText (10, 70) y,
      FileWrite (image_filename cfg (captured_at inp)),
      Print (''Image saved to '' @ image_filename cfg (captured_at inp)),
      Sleep (TIMEOUT cfg)]"
proof -
  from assms obtain p y where "annotation_texts lib (telemetry_reply inp) = Inr (p, y)"
    by (cases "annotation_texts lib (telemetry_reply inp)") (auto simp: pass_ok_def)
  then show ?thesis
    by (simp add: pass_events_def fetch_events_def annotate_events_def persist_events_def)
qed

lemma capture_loop_world:
  assumes "\<forall>inp \<in> set inps. pass_ok cfg lib inp"
  shows "capture_loop cfg lib inps w =
     (None, w\<lparr>files := files_after cfg lib inps (files w),
               trace := trace w @ concat (map (pass_events cfg lib) inps)\<rparr>)"
  using assms
proof (induction inps arbitrary: w)
  case Nil
  then show ?case by (simp add: files_after_def)
next
  case (Cons inp inps)
  then have ok: "pass_ok cfg lib inp" by simp
  then obtain status img where r: "snapshot_reply inp = Reply status (Some img)"
    by (auto simp: pass_ok_def elim: frame_arrivesD)
  from Cons have "\<forall>inp \<in> set inps. pass_ok cfg lib inp" by simp
  from Cons.IH [OF this] show ?case
    by (simp add: loop_body_ok [OF ok r] files_after_def stored_frame_def fetched_frame_def r)
qed

lemma pass_frame_shape:
  assumes "pass_ok cfg lib inp"
  shows "\<exists>status img p y.
     snapshot_reply inp = Reply status (Some img)
     \<and> annotation_texts lib (telemetry_reply inp) = Inr (p, y)
     \<and> pass_events cfg lib inp =
         [HttpGet (CAMERA_SNAPSHOT_URL cfg), HttpGet (OPENDTU_STATUS_URL cfg),
          DrawText (10, 10) (strftime (TIME_FORMAT cfg) (captured_at inp) (zone_name inp)),
          DrawText (10, 40) p, DrawText (10, 70) y,
          FileWrite (image_filename cfg (captured_at inp)),
          Print (''Image saved to '' @ image_filename cfg (captured_at inp)),
          Sleep (TIMEOUT cfg)]
     \<and> stored_frame cfg lib inp =
         jpeg_encode lib (img\<lparr>texts := texts img @
           [((10, 10), strftime (TIME_FORMAT cfg) (captured_at inp) (zone_name inp)),
            ((10, 40), p), ((10, 70), y)]\<rparr>)"
proof -
  from assms obtain status img where r: "snapshot_reply inp = Reply status (Some img)"
    by (auto simp: pass_ok_def elim: frame_arrivesD)
  from assms obtain p y where t: "annotation_texts lib (telemetry_reply inp) = Inr (p, y)"
    by (cases "annotation_texts lib (telemetry_reply inp)") (auto simp: pass_ok_def)
  show ?thesis
    by (simp add: r t pass_events_def fetch_events_def annotate_events_def persist_events_def
        stored_frame_def fetched_frame_def annotated_def)
qed

text \<open>
  C7. While no answer of the surroundings makes a pass raise, the loop keeps running
  (it has not ended after any number of passes) and what it does is, pass after pass,
  exactly the sequence of the specification: the frame request; the annotation (the
  telemetry request and the three texts); the write of the file and its console line;
  then the sleep for the interval \<open>TIMEOUT\<close>. Nothing else happens and nothing is
  reordered: the trace is the concatenation of these sequences. What is written is the
  annotated frame: after the passes the disk holds, under the name of each pass, the
  encoding of the frame that pass fetched with the timestamp, the power text and the
  yield text added at their three positions, and no other file has changed.
\<close>

theorem running_sequence:
  assumes "\<forall>inp \<in> set inps. pass_ok cfg lib inp"
  shows "fst (capture_loop cfg lib inps w) = None
     \<and> trace (snd (capture_loop cfg lib inps w)) = trace w @ concat (map (pass_events cfg lib) inps)
     \<and> (\<forall>inp \<in> set inps. \<exists>p y. pass_events cfg lib inp =
           [HttpGet (CAMERA_SNAPSHOT_URL cfg), HttpGet (OPENDTU_STATUS_URL cfg),
            DrawText (10, 10) (strftime (TIME_FORMAT cfg) (captured_at inp) (zone_name inp)),
            DrawText (10, 40) p, DrawText (10, 70) y,
            FileWrite (image_filename cfg (captured_at inp)),
            Print (''Image saved to '' @ image_filename cfg (captured_at inp)),
            Sleep (TIMEOUT cfg)])
     \<and> files (snd (capture_loop cfg lib inps w)) = files_after cfg lib inps (files w)
     \<and> (\<forall>inp \<in> set inps. \<exists>status img p y.
           snapshot_reply inp = Reply status (Some img)
           \<and> annotation_texts lib (telemetry_reply inp) = Inr (p, y)
           \<and> pass_events cfg lib inp =
               [HttpGet (CAMERA_SNAPSHOT_URL cfg), HttpGet (OPENDTU_STATUS_URL cfg),
                DrawText (10, 10) (strftime (TIME_FORMAT cfg) (captured_at inp) (zone_name inp)),
                DrawText (10, 40) p, DrawText (10, 70) y,
                FileWrite (image_filename cfg (captured_at inp)),
                Print (''Image saved to '' @ image_filename cfg (captured_at inp)),
                Sleep (TIMEOUT cfg)]
           \<and> stored_frame cfg lib inp =
               jpeg_encode lib (img\<lparr>texts := texts img @
                 [((10, 10), strftime (TIME_FORMAT cfg) (captured_at inp) (zone_name inp)),
                  ((10, 40), p), ((10, 70), y)]\<rparr>))"
proof -
  have a: "fst (capture_loop cfg lib inps w) = None"
    and b: "trace (snd (capture_loop cfg lib inps w))
        = trace w @ concat (map (pass_events cfg lib) inps)"
    and d: "files (snd (capture_loop cfg lib inps w)) = files_after cfg lib inps (files w)"
    by (simp_all add: capture_loop_world [OF assms])
  have c: "\<forall>inp \<in> set inps. \<exists>p y. pass_events cfg lib inp =
           [HttpGet (CAMERA_SNAPSHOT_URL cfg), HttpGet (OPENDTU_STATUS_URL cfg),
            DrawText (10, 10) (strftime (TIME_FORMAT cfg) (captured_at inp) (zone_name inp)),
            DrawText (10, 40) p, DrawText (10, 70) y,
            FileWrite (image_filename cfg (captured_at inp)),
            Print (''Image saved to '' @ image_filename cfg (captured_at inp)),
            Sleep (TIMEOUT cfg)]"
    using assms pass_events_shape by blast
  have e: "\<forall>inp \<in> set inps. \<exists>status img p y.
           snapshot_reply inp = Reply status (Some img)
           \<and> annotation_texts lib (telemetry_reply inp) = Inr (p, y)
           \<and> pass_events cfg lib inp =
               [HttpGet (CAMERA_SNAPSHOT_URL cfg), HttpGet (OPENDTU_STATUS_URL cfg),
                DrawText (10, 10) (strftime (TIME_FORMAT cfg) (captured_at inp) (zone_name inp)),
                DrawText (10, 40) p, DrawText (10, 70) y,
                FileWrite (image_filename cfg (captured_at inp)),
                Print (''Image saved to '' @ image_filename cfg (captured_at inp)),
                Sleep (TIMEOUT cfg)]
           \<and> stored_frame cfg lib inp =
               jpeg_encode lib (img\<lparr>texts := texts img @
                 [((10, 10), strftime (TIME_FORMAT cfg) (captured_at inp) (zone_name inp)),
                  ((10, 40), p), ((10, 70), y)]\<rparr>)"
    using assms pass_frame_shape by blast
  from a b c d e show ?thesis by (intro conjI)
qed

lemmas capture_eval =
  pass_ok_def frame_arrives_def annotation_texts_def response_json_def total_field_def
  format_opendtu_value_def dict_lookup_def pass_events_def fetch_events_def annotate_events_def
  persist_events_def image_filename_def strftime_directive_def
  CAMERA_BASE_URL_def CAMERA_SNAPSHOT_URL_def OPENDTU_STATUS_URL_def format_eval

theorem running_sequence_witness:
  "pass_ok the_config example_platform example_capture
   \<and> fst (capture_loop the_config example_platform [example_capture, example_capture] empty_world) = None
   \<and> trace (snd (capture_loop the_config example_platform [example_capture, example_capture] empty_world))
      = [HttpGet ''http://raspi-01:8080/snapshot'',
         HttpGet ''http://192.168.0.128:80/api/livedata/status'',
         DrawText (10, 10) ''2024-03-09 07:05:59 CET'',
         DrawText (10, 40) ''Power: 123.40 W'', DrawText (10, 70) ''Yield Today: N/A'',
         FileWrite ''images/image_20240309_070559.jpg'',
         Print ''Image saved to images/image_20240309_070559.jpg'', Sleep 2,
         HttpGet ''http://raspi-01:8080/snapshot'',
         HttpGet ''http://192.168.0.128:80/api/livedata/status'',
         DrawText (10, 10) ''2024-03-09 07:05:59 CET'',
         DrawText (10, 40) ''Power: 123.40 W'', DrawText (10, 70) ''Yield Today: N/A'',
         FileWrite ''images/image_20240309_070559.jpg'',
         Print ''Image saved to images/image_20240309_070559.jpg'', Sleep 2]
   \<and> files (snd (capture_loop the_config example_platform [example_capture, example_capture]
                   empty_world)) ''images/image_20240309_070559.jpg''
      = Some (jpeg_encode example_platform
          (example_image\<lparr>texts := [((10, 10), ''2024-03-09 07:05:59 CET''),
             ((10, 40), ''Power: 123.40 W''), ((10, 70), ''Yield Today: N/A'')]\<rparr>))
   \<and> files (snd (capture_loop the_config example_platform [example_capture, example_capture]
                   empty_world)) ''test.jpg'' = None"
  using running_sequence [of "[example_capture, example_capture]" the_config example_platform empty_world]
  by (simp add: capture_eval example_capture_def the_config_def example_time_def empty_world_def
      files_after_def stored_frame_def fetched_frame_def annotated_def example_image_def)

section \<open>A failing annotation\<close>

lemma capture_loop_append:
  assumes "fst (capture_loop cfg lib xs w) = None"
  shows "capture_loop cfg lib (xs @ ys) w = capture_loop cfg lib ys (snd (capture_loop cfg lib xs w))"
  using assms
  by (induction xs arbitrary: w) (auto split: prod.splits sum.splits)


lemma annotation_texts_fetch_fails:
  assumes "response_json reply = Inl e"
  shows "annotation_texts lib reply = Inl e"
  using assms by (simp add: annotation_texts_def)

lemma embed_text_all_or_nothing:
  assumes "fst (embed_text cfg lib img now zone reply w) = Inl e"
  shows "snd (embed_text cfg lib img now zone reply w) = emit (HttpGet (OPENDTU_STATUS_URL cfg)) w"
proof (cases "annotation_texts lib reply")
  case (Inl e')
  then show ?thesis by (simp add: embed_text_fails)
next
  case (Inr py)
  then obtain p y where "annotation_texts lib reply = Inr (p, y)" by (cases py) simp
  with assms show ?thesis by (simp add: embed_text_succeeds)
qed

lemma loop_body_telemetry_fails:
  assumes "response_json (telemetry_reply inp) = Inl e"
    and "snapshot_reply inp = Reply status (Some img)"
  shows "loop_body cfg lib inp w =
     (Inl e, w\<lparr>trace := trace w @ [HttpGet (CAMERA_SNAPSHOT_URL cfg),
                                     HttpGet (OPENDTU_STATUS_URL cfg)]\<rparr>)"
  by (simp add: loop_body_def assms(2) get_image_arrives and_then_def emit_def
      embed_text_fails [OF annotation_texts_fetch_fails [OF assms(1)]])

text \<open>
  C3. When the telemetry fetch of a pass fails (no connection, or a body that is not
  JSON), \<^verbatim>\<open>embed_text\<close> raises that error with the request as its only event: no text
  has been drawn. The loop ends with the error after the two requests of the pass; no
  file is written in that pass, and the files are those the passes before it left.
  More generally \<^verbatim>\<open>embed_text\<close> never raises after it has drawn.
\<close>

theorem annotation_all_or_nothing:
  assumes "response_json (telemetry_reply inp) = Inl e"
    and "snapshot_reply inp = Reply status (Some img)"
  shows "embed_text cfg lib img (captured_at inp) (zone_name inp) (telemetry_reply inp) w
           = (Inl e, emit (HttpGet (OPENDTU_STATUS_URL cfg)) w)
       \<and> capture_loop cfg lib (inp # rest) w
           = (Some e, w\<lparr>trace := trace w @ [HttpGet (CAMERA_SNAPSHOT_URL cfg),
                                             HttpGet (OPENDTU_STATUS_URL cfg)]\<rparr>)
       \<and> files (snd (capture_loop cfg lib (inp # rest) w)) = files w
       \<and> (fst (capture_loop cfg lib prior w) = None \<longrightarrow>
            fst (capture_loop cfg lib (prior @ inp # rest) w) = Some e
            \<and> files (snd (capture_loop cfg lib (prior @ inp # rest) w))
                = files (snd (capture_loop cfg lib prior w))
            \<and> filter is_write (trace (snd (capture_loop cfg lib (prior @ inp # rest) w)))
                = filter is_write (trace (snd (capture_loop cfg lib prior w)))
            \<and> filter is_drawing (trace (snd (capture_loop cfg lib (prior @ inp # rest) w)))
                = filter is_drawing (trace (snd (capture_loop cfg lib prior w))))
       \<and> (\<forall>e' img' now zone reply.
            fst (embed_text cfg lib img' now zone reply w) = Inl e' \<longrightarrow>
            snd (embed_text cfg lib img' now zone reply w) = emit (HttpGet (OPENDTU_STATUS_URL cfg)) w)"
proof -
  have a: "embed_text cfg lib img (captured_at inp) (zone_name inp) (telemetry_reply inp) w
           = (Inl e, emit (HttpGet (OPENDTU_STATUS_URL cfg)) w)"
    by (rule embed_text_fails [OF annotation_texts_fetch_fails [OF assms(1)]])
  have b: "capture_loop cfg lib (inp # rest) v
           = (Some e, v\<lparr>trace := trace v @ [HttpGet (CAMERA_SNAPSHOT_URL cfg),
                                             HttpGet (OPENDTU_STATUS_URL cfg)]\<rparr>)" for v
    by (simp add: loop_body_telemetry_fails [OF assms])
  have c: "fst (capture_loop cfg lib (prior @ inp # rest) w) = Some e
            \<and> files (snd (capture_loop cfg lib (prior @ inp # rest) w))
                = files (snd (capture_loop cfg lib prior w))
            \<and> filter is_write (trace (snd (capture_loop cfg lib (prior @ inp # rest) w)))
                = filter is_write (trace (snd (capture_loop cfg lib prior w)))
            \<and> filter is_drawing (trace (snd (capture_loop cfg lib (prior @ inp # rest) w)))
                = filter is_drawing (trace (snd (capture_loop cfg lib prior w)))"
    if "fst (capture_loop cfg lib prior w) = None"
    by (simp only: capture_loop_append [OF that] b) (simp add: is_write_def is_drawing_def)
  have d: "\<forall>e' img' now zone reply.
            fst (embed_text cfg lib img' now zone reply w) = Inl e' \<longrightarrow>
            snd (embed_text cfg lib img' now zone reply w) = emit (HttpGet (OPENDTU_STATUS_URL cfg)) w"
    using embed_text_all_or_nothing by blast
  from a b [of w] c d show ?thesis by simp
qed

theorem annotation_all_or_nothing_witness:
  "response_json (telemetry_reply (example_capture\<lparr>telemetry_reply := Reply 500 None\<rparr>)) = Inl JSONDecodeError
   \<and> fst (capture_loop the_config example_platform [example_capture] example_world) = None
   \<and> fst (capture_loop the_config example_platform
            [example_capture, example_capture\<lparr>telemetry_reply := Reply 500 None\<rparr>, example_capture]
            example_world) = Some JSONDecodeError
   \<and> files (snd (capture_loop the_config example_platform
            [example_capture, example_capture\<lparr>telemetry_reply := Reply 500 None\<rparr>, example_capture]
            example_world))
       = files (snd (capture_loop the_config example_platform [example_capture] example_world))"
  using annotation_all_or_nothing [of "example_capture\<lparr>telemetry_reply := Reply 500 None\<rparr>"
      JSONDecodeError 200 example_image the_config example_platform example_world
      "[example_capture]" "[example_capture]"]
    capture_loop_all_ok [of "[example_capture]" the_config example_platform example_world]
  by (simp add: capture_eval example_capture_def the_config_def example_time_def)

section \<open>Errors\<close>


















lemmas main_eval =
  main_def and_then_def pure_step_def print_def emit_def get_camera_status_def response_json_def
  main_validating_def dict_lookup_def main_estimating_def estimate_size_per_hour_def
  estimate_frames_per_hour_def get_image_def pil_save_def getsize_def remove_file_def
  py_truediv_def loop_body_def embed_text_def get_opendtu_data_def total_field_def
  format_opendtu_value_def draw_text_def save_image_def image_filename_def sleep_def
  strftime_directive_def CAMERA_STATUS_URL_def CAMERA_BASE_URL_def CAMERA_SNAPSHOT_URL_def
  OPENDTU_STATUS_URL_def format_byte_size_def format_eval Let_def status_document_def
  exit_status_def


section \<open>File names\<close>

text \<open>Decimal digits compare as the numbers they write.\<close>

lemma digit_char_code:
  assumes "d < 10"
  shows "of_char (digit_char d) = (48 + d :: nat)"
proof -
  from assms have "d = 0 \<or> d = 1 \<or> d = 2 \<or> d = 3 \<or> d = 4 \<or> d = 5 \<or> d = 6 \<or> d = 7 \<or> d = 8 \<or> d = 9"
    by arith
  then show ?thesis
    by (elim disjE) (simp_all add: digit_char_def)
qed

lemma digit_char_less:
  assumes "a < 10" and "b < 10"
  shows "digit_char a < digit_char b \<longleftrightarrow> a < b"
  using assms by (simp add: less_char_def digit_char_code)

lemma digit_char_eq:
  assumes "a < 10" and "b < 10"
  shows "digit_char a = digit_char b \<longleftrightarrow> a = b"
proof
  assume "digit_char a = digit_char b"
  then have "(of_char (digit_char a) :: nat) = of_char (digit_char b)" by simp
  with assms show "a = b" by (simp add: digit_char_code)
qed simp

lemma low_digits_2: "low_digits 2 n = [digit_char (n div 10 mod 10), digit_char (n mod 10)]"
  by (simp add: low_digits.simps [of 2] low_digits.simps [of "Suc 0"] low_digits.simps [of 0])

lemma low_digits_0: "low_digits 0 n = []"
  by (simp add: low_digits.simps [of 0])

lemma low_digits_Suc: "low_digits (Suc w) n = low_digits w (n div 10) @ [digit_char (n mod 10)]"
  by (simp add: low_digits.simps [of "Suc w"])

lemma low_digits_4: "low_digits 4 n = low_digits 2 (n div 100) @ low_digits 2 (n mod 100)"
proof -
  have four: "low_digits 4 n = [digit_char (n div 10 div 10 div 10 mod 10),
      digit_char (n div 10 div 10 mod 10), digit_char (n div 10 mod 10), digit_char (n mod 10)]"
    by (simp add: low_digits.simps [of 4] low_digits.simps [of 3] low_digits.simps [of 2]
        low_digits.simps [of "Suc 0"] low_digits.simps [of 0])
  have h: "n div 10 div 10 = n div 100"
    using div_mult2_eq [of n 10 10] by simp
  have l1: "n mod 100 div 10 = n div 10 mod 10"
    using mod_mult2_eq [of n 10 10] by simp
  have l0: "n mod 100 mod 10 = n mod 10"
    by (rule mod_mod_cancel) simp
  have l2: "n mod 100 div 10 mod 10 = n div 10 mod 10"
    by (simp add: l1)
  show ?thesis
    by (simp only: four low_digits_2 h l0 l2 append_Cons append_Nil)
qed

lemma append_less_cancel: "(p @ xs < p @ ys) = (xs < (ys :: 'a :: order list))"
  by (induction p) simp_all

lemma block_order:
  fixes a b k :: nat
  assumes "ra < k" and "rb < k" and "ra = a mod k" and "rb = b mod k"
  shows "(a div k < b div k \<or> a div k = b div k \<and> (ra < rb \<or> ra = rb \<and> P))
      = (a < b \<or> a = b \<and> P)"
proof -
  have a: "a = k * (a div k) + ra" and b: "b = k * (b div k) + rb"
    using assms by simp_all
  show ?thesis
  proof (cases "a div k < b div k")
    case True
    then have "k * (a div k) + k \<le> k * (b div k)"
      by (metis Suc_leI mult_Suc_right add.commute mult_le_mono2)
    with assms(1) a b have "a < b" by linarith
    with True show ?thesis by simp
  next
    case False
    show ?thesis
    proof (cases "a div k = b div k")
      case True
      with a b have "(a < b) = (ra < rb)" "(a = b) = (ra = rb)" by (metis nat_add_left_cancel_less, metis add_left_cancel)
      with True show ?thesis by simp
    next
      case ne: False
      with False have "b div k < a div k" by simp
      then have "k * (b div k) + k \<le> k * (a div k)"
        by (metis Suc_leI mult_Suc_right add.commute mult_le_mono2)
      with assms(2) a b have "b < a" by linarith
      with False ne show ?thesis by auto
    qed
  qed
qed

lemma two_digits_less:
  assumes "a < 100" and "b < 100"
  shows "(low_digits 2 a @ xs < low_digits 2 b @ ys) = (a < b \<or> a = b \<and> xs < ys)"
proof -
  from assms have d: "a div 10 < 10" "b div 10 < 10" "a mod 10 < 10" "b mod 10 < 10"
    "a div 10 mod 10 = a div 10" "b div 10 mod 10 = b div 10"
    by simp_all
  have "(a div 10 < b div 10 \<or> a div 10 = b div 10 \<and> (a mod 10 < b mod 10 \<or> a mod 10 = b mod 10 \<and> P))
      = (a < b \<or> a = b \<and> P)" for P
    by (rule block_order [of "a mod 10" 10 "b mod 10" a b]) simp_all
  then show ?thesis
    by (simp add: low_digits_2 d digit_char_less digit_char_eq)
qed

lemma four_digits_less:
  assumes "a < 10000" and "b < 10000"
  shows "(low_digits 4 a @ xs < low_digits 4 b @ ys) = (a < b \<or> a = b \<and> xs < ys)"
proof -
  from assms have d: "a div 100 < 100" "b div 100 < 100" "a mod 100 < 100" "b mod 100 < 100"
    by simp_all
  have "(a div 100 < b div 100 \<or> a div 100 = b div 100 \<and> (a mod 100 < b mod 100 \<or> a mod 100 = b mod 100 \<and> P))
      = (a < b \<or> a = b \<and> P)" for P
    by (rule block_order [of "a mod 100" 100 "b mod 100" a b]) simp_all
  then show ?thesis
    by (simp add: low_digits_4 two_digits_less d)
qed

lemma filename_stamp:
  "strftime ''%Y%m%d_%H%M%S'' t zone =
     low_digits 4 (dt_year t) @ low_digits 2 (dt_month t) @ low_digits 2 (dt_day t) @ ''_''
       @ low_digits 2 (dt_hour t) @ low_digits 2 (dt_minute t) @ low_digits 2 (dt_second t)"
  by (simp add: strftime_directive_def)

lemma length_low_digits: "length (low_digits w n) = w"
proof (induction w arbitrary: n)
  case 0
  then show ?case by (simp add: low_digits_0)
next
  case (Suc w)
  then show ?case by (simp add: low_digits_Suc)
qed

lemma valid_datetime_bounds:
  assumes "valid_datetime t"
  shows "dt_year t < 10000" and "dt_month t < 100" and "dt_day t < 100" and "dt_hour t < 100"
    and "dt_minute t < 100" and "dt_second t < 100" and "dt_microsecond t < 1000000"
  using assms by (auto simp: valid_datetime_def days_in_month_def split: if_splits)

lemma image_filename_less_iff:
  assumes "valid_datetime a" and "valid_datetime b"
  shows "(image_filename cfg a < image_filename cfg b) = (second_key a < second_key b)"
proof -
  note ba = valid_datetime_bounds [OF assms(1)] and bb = valid_datetime_bounds [OF assms(2)]
  have "(image_filename cfg a < image_filename cfg b) =
    (low_digits 4 (dt_year a) @ low_digits 2 (dt_month a) @ low_digits 2 (dt_day a) @ ''_''
       @ low_digits 2 (dt_hour a) @ low_digits 2 (dt_minute a) @ low_digits 2 (dt_second a) @ ''.jpg''
     < low_digits 4 (dt_year b) @ low_digits 2 (dt_month b) @ low_digits 2 (dt_day b) @ ''_''
       @ low_digits 2 (dt_hour b) @ low_digits 2 (dt_minute b) @ low_digits 2 (dt_second b) @ ''.jpg'')"
    by (simp add: image_filename_def strftime_directive_def append_less_cancel)
  also have "\<dots> = (second_key a < second_key b)"
    unfolding four_digits_less [OF ba(1) bb(1)] two_digits_less [OF ba(2) bb(2)]
      two_digits_less [OF ba(3) bb(3)] append_Cons append_Nil Cons_less_Cons
      two_digits_less [OF ba(4) bb(4)] two_digits_less [OF ba(5) bb(5)]
      two_digits_less [OF ba(6) bb(6)] second_key_def
    by auto
  finally show ?thesis .
qed

lemma same_second_key: "same_second a b = (second_key a = second_key b)"
  by (auto simp: same_second_def second_key_def)

lemma image_filename_eq_iff:
  assumes "valid_datetime a" and "valid_datetime b"
  shows "(image_filename cfg a = image_filename cfg b) = same_second a b"
proof -
  have "(image_filename cfg a = image_filename cfg b)
      = (\<not> image_filename cfg a < image_filename cfg b \<and> \<not> image_filename cfg b < image_filename cfg a)"
    by auto
  also have "\<dots> = (\<not> second_key a < second_key b \<and> \<not> second_key b < second_key a)"
    by (simp only: image_filename_less_iff [OF assms] image_filename_less_iff [OF assms(2) assms(1)])
  also have "\<dots> = (second_key a = second_key b)"
    by auto
  finally show ?thesis by (simp add: same_second_key)
qed

lemma dt_less_second_key:
  assumes "dt_less a b"
  shows "second_key a \<le> second_key b"
  using assms by (auto simp: dt_less_def second_key_def)

lemma same_second_close:
  assumes "same_second a b" and "dt_microsecond b < 1000000"
  shows "to_microseconds b < to_microseconds a + 1000000"
  using assms by (simp add: same_second_def to_microseconds_def)

lemma save_twice:
  assumes "image_filename cfg t1 = image_filename cfg t2"
  shows "files (snd (save_image cfg lib img2 t2 DiskOk (snd (save_image cfg lib img1 t1 DiskOk w))))
     = (files w)(image_filename cfg t1 \<mapsto> jpeg_encode lib img2)"
  by (simp add: save_image_ok assms)

text \<open>
  C4. For capture timestamps that are valid datetimes from the year 1000 on, the file name
  is \<open>SAVE_DIR/image_YYYYMMDD_HHMMSS.jpg\<close>, a function of the timestamp cut to the
  second. Two timestamps in the same second give the same name, and the later save
  replaces the earlier file: after both, the path holds the second encoding and no other
  path has changed. For \<open>t1 < t2\<close> at least one second apart the first name is strictly
  below the second in the lexicographic order; for \<open>t1 < t2\<close> in general it is not
  above it; and two names are equal only for timestamps of the same second.
\<close>

theorem filename_determinism:
  assumes "valid_datetime t1" and "valid_datetime t2"
    and "1000 \<le> dt_year t1" and "1000 \<le> dt_year t2"
  shows "image_filename cfg t1 =
           SAVE_DIR cfg @ ''/image_'' @ low_digits 4 (dt_year t1) @ low_digits 2 (dt_month t1)
             @ low_digits 2 (dt_day t1) @ ''_'' @ low_digits 2 (dt_hour t1)
             @ low_digits 2 (dt_minute t1) @ low_digits 2 (dt_second t1) @ ''.jpg''
       \<and> (same_second t1 t2 \<longrightarrow>
            image_filename cfg t1 = image_filename cfg t2
            \<and> files (snd (save_image cfg lib img2 t2 DiskOk
                            (snd (save_image cfg lib img1 t1 DiskOk w))))
                = (files w)(image_filename cfg t1 \<mapsto> jpeg_encode lib img2))
       \<and> (dt_less t1 t2 \<and> to_microseconds t1 + 1000000 \<le> to_microseconds t2 \<longrightarrow>
            image_filename cfg t1 < image_filename cfg t2)
       \<and> (dt_less t1 t2 \<longrightarrow> image_filename cfg t1 \<le> image_filename cfg t2)
       \<and> (image_filename cfg t1 = image_filename cfg t2 \<longrightarrow> same_second t1 t2)"
proof -
  have form: "image_filename cfg t1 =
           SAVE_DIR cfg @ ''/image_'' @ low_digits 4 (dt_year t1) @ low_digits 2 (dt_month t1)
             @ low_digits 2 (dt_day t1) @ ''_'' @ low_digits 2 (dt_hour t1)
             @ low_digits 2 (dt_minute t1) @ low_digits 2 (dt_second t1) @ ''.jpg''"
    by (simp add: image_filename_def strftime_directive_def)
  have same: "image_filename cfg t1 = image_filename cfg t2
            \<and> files (snd (save_image cfg lib img2 t2 DiskOk
                            (snd (save_image cfg lib img1 t1 DiskOk w))))
                = (files w)(image_filename cfg t1 \<mapsto> jpeg_encode lib img2)"
    if "same_second t1 t2"
  proof -
    from that have "image_filename cfg t1 = image_filename cfg t2"
      by (simp add: image_filename_eq_iff [OF assms(1,2)])
    then show ?thesis by (simp add: save_twice)
  qed
  have mono: "image_filename cfg t1 \<le> image_filename cfg t2" if "dt_less t1 t2"
  proof -
    from that have "second_key t1 \<le> second_key t2" by (rule dt_less_second_key)
    then have "second_key t1 < second_key t2 \<or> second_key t1 = second_key t2"
      by (simp add: le_less)
    then have "image_filename cfg t1 < image_filename cfg t2
        \<or> image_filename cfg t1 = image_filename cfg t2"
      by (simp add: image_filename_less_iff [OF assms(1,2)] image_filename_eq_iff [OF assms(1,2)]
          same_second_key)
    then show ?thesis by (simp add: le_less)
  qed
  have strict: "image_filename cfg t1 < image_filename cfg t2"
    if "dt_less t1 t2" and "to_microseconds t1 + 1000000 \<le> to_microseconds t2"
  proof -
    have "\<not> same_second t1 t2"
    proof
      assume "same_second t1 t2"
      then have "to_microseconds t2 < to_microseconds t1 + 1000000"
        using valid_datetime_bounds(7) [OF assms(2)] by (rule same_second_close)
      with that(2) show False by simp
    qed
    then have "image_filename cfg t1 \<noteq> image_filename cfg t2"
      by (simp add: image_filename_eq_iff [OF assms(1,2)])
    with mono [OF that(1)] show ?thesis by simp
  qed
  have inj: "same_second t1 t2" if "image_filename cfg t1 = image_filename cfg t2"
    using that by (simp add: image_filename_eq_iff [OF assms(1,2)])
  from form same mono strict inj show ?thesis by blast
qed

lemmas datetime_eval =
  valid_datetime_def days_in_month_def is_leap_def dt_less_def to_microseconds_def ymd2ord_def
  days_before_year_def days_before_month_def same_second_def

theorem filename_determinism_witness:
  "valid_datetime example_time
   \<and> valid_datetime (example_time\<lparr>dt_minute := 6, dt_second := 0\<rparr>)
   \<and> valid_datetime (example_time\<lparr>dt_microsecond := 900000\<rparr>)
   \<and> 1000 \<le> dt_year example_time
   \<and> dt_less example_time (example_time\<lparr>dt_minute := 6, dt_second := 0\<rparr>)
   \<and> to_microseconds example_time + 1000000
        \<le> to_microseconds (example_time\<lparr>dt_minute := 6, dt_second := 0\<rparr>)
   \<and> image_filename the_config example_time = ''images/image_20240309_070559.jpg''
   \<and> image_filename the_config (example_time\<lparr>dt_minute := 6, dt_second := 0\<rparr>)
        = ''images/image_20240309_070600.jpg''
   \<and> image_filename the_config example_time
        < image_filename the_config (example_time\<lparr>dt_minute := 6, dt_second := 0\<rparr>)
   \<and> same_second example_time (example_time\<lparr>dt_microsecond := 900000\<rparr>)
   \<and> image_filename the_config example_time
        = image_filename the_config (example_time\<lparr>dt_microsecond := 900000\<rparr>)"
proof -
  have v: "valid_datetime example_time"
    "valid_datetime (example_time\<lparr>dt_minute := 6, dt_second := 0\<rparr>)"
    "valid_datetime (example_time\<lparr>dt_microsecond := 900000\<rparr>)"
    by (simp_all add: datetime_eval example_time_def)
  have o: "dt_less example_time (example_time\<lparr>dt_minute := 6, dt_second := 0\<rparr>)"
    "to_microseconds example_time + 1000000
        \<le> to_microseconds (example_time\<lparr>dt_minute := 6, dt_second := 0\<rparr>)"
    "same_second example_time (example_time\<lparr>dt_microsecond := 900000\<rparr>)"
    "1000 \<le> dt_year example_time"
    "1000 \<le> dt_year (example_time\<lparr>dt_minute := 6, dt_second := 0\<rparr>)"
    "1000 \<le> dt_year (example_time\<lparr>dt_microsecond := 900000\<rparr>)"
    by (simp_all add: datetime_eval example_time_def)
  have n: "image_filename the_config example_time = ''images/image_20240309_070559.jpg''"
    "image_filename the_config (example_time\<lparr>dt_minute := 6, dt_second := 0\<rparr>)
        = ''images/image_20240309_070600.jpg''"
    by (simp_all add: image_filename_def strftime_directive_def the_config_def example_time_def
        low_digits.simps digit_char_def)
  have lt: "image_filename the_config example_time
        < image_filename the_config (example_time\<lparr>dt_minute := 6, dt_second := 0\<rparr>)"
    using v o
      filename_determinism [of example_time "example_time\<lparr>dt_minute := 6, dt_second := 0\<rparr>"
        the_config example_platform example_image example_image empty_world]
    by blast
  have eq: "image_filename the_config example_time
        = image_filename the_config (example_time\<lparr>dt_microsecond := 900000\<rparr>)"
    using v o
      filename_determinism [of example_time "example_time\<lparr>dt_microsecond := 900000\<rparr>"
        the_config example_platform example_image example_image empty_world]
    by blast
  from v o n lt eq show ?thesis by blast
qed

section \<open>The display time zone\<close>

lemma urls_ignore_time_zone:
  "CAMERA_SNAPSHOT_URL (cfg\<lparr>TIME_ZONE := z\<rparr>) = CAMERA_SNAPSHOT_URL cfg"
  "CAMERA_STATUS_URL (cfg\<lparr>TIME_ZONE := z\<rparr>) = CAMERA_STATUS_URL cfg"
  "OPENDTU_STATUS_URL (cfg\<lparr>TIME_ZONE := z\<rparr>) = OPENDTU_STATUS_URL cfg"
  "image_filename (cfg\<lparr>TIME_ZONE := z\<rparr>) now = image_filename cfg now"
  by (simp_all add: CAMERA_SNAPSHOT_URL_def CAMERA_STATUS_URL_def CAMERA_BASE_URL_def
      OPENDTU_STATUS_URL_def image_filename_def)

lemma get_image_ignores_time_zone:
  "get_image (cfg\<lparr>TIME_ZONE := z\<rparr>) reply now = get_image cfg reply now"
  by (rule ext) (simp add: get_image_def urls_ignore_time_zone)

lemma get_camera_status_ignores_time_zone:
  "get_camera_status (cfg\<lparr>TIME_ZONE := z\<rparr>) reply = get_camera_status cfg reply"
  by (rule ext) (simp add: get_camera_status_def urls_ignore_time_zone)

lemma get_opendtu_data_ignores_time_zone:
  "get_opendtu_data (cfg\<lparr>TIME_ZONE := z\<rparr>) reply = get_opendtu_data cfg reply"
  by (rule ext) (simp add: get_opendtu_data_def urls_ignore_time_zone)

lemma embed_text_ignores_time_zone:
  "embed_text (cfg\<lparr>TIME_ZONE := z\<rparr>) lib img now zone reply
     = embed_text cfg lib img now zone reply"
  by (simp add: embed_text_def get_opendtu_data_ignores_time_zone)

lemma save_image_ignores_time_zone:
  "save_image (cfg\<lparr>TIME_ZONE := z\<rparr>) lib img now d = save_image cfg lib img now d"
  by (simp add: save_image_def urls_ignore_time_zone)

lemma loop_body_ignores_time_zone:
  "loop_body (cfg\<lparr>TIME_ZONE := z\<rparr>) lib inp = loop_body cfg lib inp"
  by (simp add: loop_body_def get_image_ignores_time_zone embed_text_ignores_time_zone
      save_image_ignores_time_zone)

lemma capture_loop_ignores_time_zone:
  "capture_loop (cfg\<lparr>TIME_ZONE := z\<rparr>) lib inps w = capture_loop cfg lib inps w"
  by (induction inps arbitrary: w)
    (simp_all add: loop_body_ignores_time_zone split: prod.splits sum.splits)

lemma main_estimating_ignores_time_zone:
  "main_estimating (cfg\<lparr>TIME_ZONE := z\<rparr>) lib start = main_estimating cfg lib start"
  by (simp add: main_estimating_def estimate_size_per_hour_def estimate_frames_per_hour_def
      get_image_ignores_time_zone)

text \<open>
  C10. \<open>TIME_ZONE\<close> is never read. Two runs that differ only in its value and meet the
  same surroundings end alike and leave the same files and the same events, so the same
  requests, drawn texts, file names and console lines. The zone in the drawn timestamp
  is the one the system reports (\<open>zone\<close>), and the file name has no zone at all.
\<close>

theorem time_zone_never_consulted:
  "main (cfg\<lparr>TIME_ZONE := z\<rparr>) lib start inps w = main cfg lib start inps w
   \<and> embed_text (cfg\<lparr>TIME_ZONE := z\<rparr>) lib img now zone reply w
       = embed_text cfg lib img now zone reply w
   \<and> image_filename (cfg\<lparr>TIME_ZONE := z\<rparr>) now = image_filename cfg now"
  by (simp add: main_def get_camera_status_ignores_time_zone main_estimating_ignores_time_zone
      capture_loop_ignores_time_zone embed_text_ignores_time_zone urls_ignore_time_zone
      split: prod.splits sum.splits)

theorem time_zone_never_consulted_witness:
  "main (the_config\<lparr>TIME_ZONE := ''UTC''\<rparr>) example_platform example_startup
      [example_capture] empty_world
     = main the_config example_platform example_startup [example_capture] empty_world
   \<and> fst (main the_config example_platform example_startup [example_capture] empty_world) = None
   \<and> DrawText (10, 10) ''2024-03-09 07:05:59 CET''
       \<in> set (trace (snd (main (the_config\<lparr>TIME_ZONE := ''UTC''\<rparr>) example_platform
                  example_startup [example_capture] empty_world)))"
proof -
  have run: "fst (main the_config example_platform example_startup [example_capture] empty_world)
        = None
      \<and> DrawText (10, 10) ''2024-03-09 07:05:59 CET''
          \<in> set (trace (snd (main the_config example_platform example_startup
                    [example_capture] empty_world)))"
    by (simp add: main_eval example_startup_def example_capture_def example_platform_def
        example_image_def example_time_def the_config_def empty_world_def)
  from run time_zone_never_consulted [where cfg = the_config and z = "''UTC''"
      and lib = example_platform and start = example_startup and inps = "[example_capture]"
      and w = empty_world]
  show ?thesis by simp
qed

end
